theory Spec2Isabelle
  imports Complex_Main "HOL-Library.Char_ord" "HOL-Library.List_Lexorder"
begin

section \<open>SG2PL-Batchsync: one reconciliation pass of a security group into a prefix list\<close>

text \<open>
  The development embeds \<^verbatim>\<open>src/SG2PL-Batchsync.py\<close>. The Lambda function reads the
  private addresses of a security group and the entries of a managed prefix list, computes
  what to add and what to remove, and applies the difference through the EC2 API.

  Conventions of the embedding.
  \<^item> An entry's \<^verbatim>\<open>Cidr\<close> string \<^verbatim>\<open>address/length\<close> is the pair of its two parts:
    \<^verbatim>\<open>entry['Cidr'].split('/')[0]\<close> is the first component,
    \<^verbatim>\<open>int(entry['Cidr'].split('/')[1])\<close> the second, and \<^verbatim>\<open>ip + "/32"\<close> is
    \<open>(ip, 32)\<close>.
  \<^item> Python floats (the quota value, the utilisation ratio) are exact rationals; rounding
    of IEEE arithmetic is not part of the model.
  \<^item> The remote services are a record \<open>world\<close>. A function of the program takes the
    world and returns its result, the world after it, and the events it caused in order:
    every API call together with what it returned, every sleep, and every line and alert
    of \<^verbatim>\<open>log_handler\<close> at severity 2 or 3. Calls
    \<^verbatim>\<open>log_handler(message, 1, False, False)\<close> only print and are left out.
  \<^item> \<^verbatim>\<open>sys.exit(1)\<close> and unhandled exceptions are errors (\<open>Inl\<close>); the polling loops
    take a bound on the number of sleeps and report \<open>StillWaiting\<close> when it is used up.
  \<^item> A Python \<^verbatim>\<open>set\<close> of addresses is a HOL set; \<^verbatim>\<open>for ip in ips\<close> visits it in
    increasing order (Python leaves the order open).
\<close>

subsection \<open>Data\<close>

type_synonym cidr = "string \<times> nat"

datatype error = SysExit | ZeroDivisionError | NameError | StillWaiting

datatype message =
    NoSecurityGroup | NoPrefixList | NoRegion
  | QuotaExceeded | UtilizationWarning
  | ResizeClipped int | ResizeFailed
  | RemoveFailed | AddFailed | UpdateFailed
  | PlCreating | PlCreateFailed | PlModifyFailed string | PlRestoreFailed
  | PlDeleting | PlDeleted | PlDeleteFailed | PlUnknownState string

text \<open>The answer of \<^verbatim>\<open>describe_managed_prefix_lists\<close> for the one prefix list asked for.\<close>

record description =
  MaxEntries :: int
  PlVersion :: int
  State :: string
  StateMessage :: string

text \<open>The dict that \<^verbatim>\<open>pl_info\<close> returns.\<close>

record plinfo =
  MaxEnt :: int
  Version :: int

datatype event =
    DescribeNetworkInterfaces string
  | GetManagedPrefixListEntries string
  | DescribeManagedPrefixLists string description
  | GetServiceQuota
  | ModifyEntries string int "cidr list option" "cidr list option" "int option"
  | ModifyMaxEntries string int "int option"
  | Sleep
  | Print string message
  | SnsPublish string message

text \<open>
  \<open>ModifyEntries pl v adds removes r\<close> is a call
  \<^verbatim>\<open>modify_managed_prefix_list(PrefixListId=pl, CurrentVersion=v, AddEntries=.., RemoveEntries=..)\<close>
  (\<open>None\<close> for a keyword that is not passed) and \<open>r\<close> the version in its response, or
  \<open>None\<close> when the call raised. \<open>ModifyMaxEntries pl n r\<close> is the call with
  \<^verbatim>\<open>MaxEntries=n\<close>, which passes no \<^verbatim>\<open>CurrentVersion\<close>.
\<close>

record world =
  sg_addresses :: "string list"
  pl_entries :: "cidr list"
  pl_maxentries :: int
  pl_version :: int
  pl_state :: string
  pl_statemessage :: string
  pl_future :: "(string \<times> nat) list"
  quota_value :: rat
  remote_errors :: "bool list"

text \<open>
  \<open>sg_addresses\<close>: every \<^verbatim>\<open>PrivateIpAddress\<close> of every interface of the group, in page
  order. \<open>pl_future\<close>: what the prefix list turns into after each describe call, as the
  next lifecycle state and the number of versions by which other activity advanced it; the
  last state stays. \<open>remote_errors\<close>: for each coming modify call, whether the service
  refuses it.
\<close>

record config =
  log_level :: int
  security_group_quota_padding_percentage :: int

type_synonym 'a effect = "'a \<times> world \<times> event list"

type_synonym 'a action = "world \<Rightarrow> (error + 'a) effect"

abbreviation outcome :: "'a effect \<Rightarrow> 'a" where
  "outcome r \<equiv> fst r"

abbreviation world_after :: "'a effect \<Rightarrow> world" where
  "world_after r \<equiv> fst (snd r)"

abbreviation events :: "'a effect \<Rightarrow> event list" where
  "events r \<equiv> snd (snd r)"

definition andthen :: "'a action \<Rightarrow> ('a \<Rightarrow> 'b action) \<Rightarrow> 'b action" where
  "andthen m f w =
     (case m w of
        (Inl e, w', es) \<Rightarrow> (Inl e, w', es)
      | (Inr a, w', es) \<Rightarrow> (case f a w' of (r, w'', es') \<Rightarrow> (r, w'', es @ es')))"

definition done_with :: "'a \<Rightarrow> 'a action" where
  "done_with a w = (Inr a, w, [])"

definition raise :: "error \<Rightarrow> 'a action" where
  "raise e w = (Inl e, w, [])"

definition total :: "(world \<Rightarrow> 'a effect) \<Rightarrow> 'a action" where
  "total m w = (case m w of (a, w', es) \<Rightarrow> (Inr a, w', es))"

subsection \<open>The remote services\<close>

definition advance :: "world \<Rightarrow> world" where
  "advance w =
     (case pl_future w of
        [] \<Rightarrow> w
      | (s, k) # rest \<Rightarrow> w\<lparr>pl_state := s, pl_version := pl_version w + int k, pl_future := rest\<rparr>)"

definition describe_managed_prefix_lists :: "string \<Rightarrow> world \<Rightarrow> description effect" where
  "describe_managed_prefix_lists pl w =
     (let d = \<lparr>MaxEntries = pl_maxentries w, PlVersion = pl_version w,
                State = pl_state w, StateMessage = pl_statemessage w\<rparr>
      in (d, advance w, [DescribeManagedPrefixLists pl d]))"

definition given :: "'a list option \<Rightarrow> 'a list" where
  "given xs = (case xs of None \<Rightarrow> [] | Some ys \<Rightarrow> ys)"

definition refused :: "world \<Rightarrow> bool" where
  "refused w = (case remote_errors w of [] \<Rightarrow> False | b # bs \<Rightarrow> b)"

text \<open>
  A modify call with entries is refused when the service says so or when the version passed
  is not the current one; otherwise the entries to remove are taken out, the entries to add
  are appended, and the version advances. \<open>None\<close> stands for the exception.
\<close>

definition modify_managed_prefix_list ::
  "string \<Rightarrow> int \<Rightarrow> cidr list option \<Rightarrow> cidr list option \<Rightarrow> world \<Rightarrow> int option effect" where
  "modify_managed_prefix_list pl version adds removes w =
     (let w1 = w\<lparr>remote_errors := tl (remote_errors w)\<rparr>
      in if refused w \<or> version \<noteq> pl_version w
         then (None, w1, [ModifyEntries pl version adds removes None])
         else (Some (pl_version w + 1),
               w1\<lparr>pl_entries := filter (\<lambda>e. e \<notin> set (given removes)) (pl_entries w) @ given adds,
                   pl_version := pl_version w + 1\<rparr>,
               [ModifyEntries pl version adds removes (Some (pl_version w + 1))]))"

definition modify_managed_prefix_list_max_entries ::
  "string \<Rightarrow> int \<Rightarrow> world \<Rightarrow> int option effect" where
  "modify_managed_prefix_list_max_entries pl n w =
     (let w1 = w\<lparr>remote_errors := tl (remote_errors w)\<rparr>
      in if refused w
         then (None, w1, [ModifyMaxEntries pl n None])
         else (Some (pl_version w), w1\<lparr>pl_maxentries := n\<rparr>,
               [ModifyMaxEntries pl n (Some (pl_version w))]))"

subsection \<open>log_handler\<close>

text \<open>
  The four branches of \<^verbatim>\<open>log_handler\<close> print, publish when asked to, and exit when asked
  to; they differ in the prefix and the subject only.
\<close>

definition log_prefix :: "config \<Rightarrow> int \<Rightarrow> string" where
  "log_prefix cfg severity =
     (if severity = 1 \<and> log_level cfg \<le> 1 then ''INFO: ''
      else if severity = 2 \<and> log_level cfg \<le> 2 then ''WARNING: ''
      else if severity = 3 \<and> log_level cfg \<le> 3 then ''CRITICAL: ''
      else ''UNKNOWN: '')"

definition log_subject :: "config \<Rightarrow> int \<Rightarrow> string" where
  "log_subject cfg severity =
     (if severity = 1 \<and> log_level cfg \<le> 1 then ''INFO: AutoSG2PL log message''
      else if severity = 2 \<and> log_level cfg \<le> 2
        then ''WARNING: AutoSG2PL has encountered a non-critical issue''
      else if severity = 3 \<and> log_level cfg \<le> 3
        then ''CRITICAL: AutoSG2PL has encountered a critical error''
      else ''UNKNOWN: AutoSG2PL has encountered an UNKNOWN error'')"

definition log_handler :: "config \<Rightarrow> message \<Rightarrow> int \<Rightarrow> bool \<Rightarrow> bool \<Rightarrow> unit action" where
  "log_handler cfg message severity sendmessage terminate w =
     (let printed = [Print (log_prefix cfg severity) message];
          published = (if sendmessage then [SnsPublish (log_subject cfg severity) message] else [])
      in (if terminate then Inl SysExit else Inr (), w, printed @ published))"

subsection \<open>Readers\<close>

definition get_sg_max_entries_quota_value :: "world \<Rightarrow> rat effect" where
  "get_sg_max_entries_quota_value w = (quota_value w, w, [GetServiceQuota])"

definition get_ips_in_sg :: "string \<Rightarrow> world \<Rightarrow> string list effect" where
  "get_ips_in_sg sg w = (sg_addresses w, w, [DescribeNetworkInterfaces sg])"

definition get_ips_in_pl :: "string \<Rightarrow> world \<Rightarrow> string list effect" where
  "get_ips_in_pl pl w =
     (map fst (filter (\<lambda>entry. snd entry = 32) (pl_entries w)), w,
      [GetManagedPrefixListEntries pl])"

definition pl_info :: "string \<Rightarrow> world \<Rightarrow> plinfo effect" where
  "pl_info pl w =
     (case describe_managed_prefix_lists pl w of
        (plinfodata, w', es) \<Rightarrow>
          (\<lparr>MaxEnt = MaxEntries plinfodata, Version = PlVersion plinfodata\<rparr>, w', es))"

subsection \<open>pl_ready and the polling loop\<close>

text \<open>
  \<^verbatim>\<open>pl_ready\<close> returns \<^verbatim>\<open>True\<close>, \<^verbatim>\<open>False\<close>, or falls off its end after
  \<^verbatim>\<open>log_handler\<close> (the value \<^verbatim>\<open>None\<close>, which \<^verbatim>\<open>not\<close> treats as \<^verbatim>\<open>False\<close>).
\<close>

definition pl_ready :: "config \<Rightarrow> string \<Rightarrow> bool action" where
  "pl_ready cfg pl =
     andthen (total (describe_managed_prefix_lists pl)) (\<lambda>plinfodata.
       let plstate = State plinfodata;
           fall = (\<lambda>_. done_with False)
       in if plstate = ''create-in-progress''
            then andthen (log_handler cfg PlCreating 3 False True) fall
          else if plstate = ''create-complete'' then done_with True
          else if plstate = ''create-failed''
            then andthen (log_handler cfg PlCreateFailed 3 True True) fall
          else if plstate = ''modify-in-progress'' then done_with False
          else if plstate = ''modify-complete'' then done_with True
          else if plstate = ''modify-failed''
            then andthen (log_handler cfg (PlModifyFailed (StateMessage plinfodata)) 3 True True) fall
          else if plstate = ''restore-in-progress'' then done_with False
          else if plstate = ''restore-complete'' then done_with True
          else if plstate = ''restore-failed''
            then andthen (log_handler cfg PlRestoreFailed 3 True True) fall
          else if plstate = ''delete-in-progress''
            then andthen (log_handler cfg PlDeleting 3 True True) fall
          else if plstate = ''delete-complete''
            then andthen (log_handler cfg PlDeleted 3 True True) fall
          else if plstate = ''delete-failed''
            then andthen (log_handler cfg PlDeleteFailed 3 True True) fall
          else andthen (log_handler cfg (PlUnknownState plstate) 3 True True) fall)"

text \<open>
  \<^verbatim>\<open>time.sleep(1)\<close>, and the loop
  \<^verbatim>\<open>while not plstatus: time.sleep(1); plstatus = pl_ready(pl, ec2remote)\<close>
  with at most \<open>fuel\<close> sleeps.
\<close>

definition sleep :: "unit action" where
  "sleep w = (Inr (), w, [Sleep])"

primrec while_not_plstatus :: "config \<Rightarrow> nat \<Rightarrow> string \<Rightarrow> bool \<Rightarrow> unit action" where
  "while_not_plstatus cfg 0 pl plstatus =
     (if plstatus then done_with () else raise StillWaiting)"
| "while_not_plstatus cfg (Suc fuel) pl plstatus =
     (if plstatus then done_with ()
      else andthen sleep (\<lambda>_. andthen (pl_ready cfg pl) (while_not_plstatus cfg fuel pl)))"

definition wait_until_ready :: "config \<Rightarrow> nat \<Rightarrow> string \<Rightarrow> unit action" where
  "wait_until_ready cfg fuel pl = andthen (pl_ready cfg pl) (while_not_plstatus cfg fuel pl)"

subsection \<open>The entry mutators\<close>

text \<open>
  \<^verbatim>\<open>[entries[i:i + 99] for i in range(0, len(entries), 99)]\<close>: the slice
  \<^verbatim>\<open>entries[i:i + 99]\<close> is \<open>take 99 (drop i entries)\<close>, and
  \<^verbatim>\<open>range(0, n, 99)\<close> lists the multiples of 99 below \<open>n\<close>.
\<close>

definition paginate :: "'a list \<Rightarrow> 'a list list" where
  "paginate entries =
     map (\<lambda>i. take 99 (drop i entries)) (filter (\<lambda>i. i mod 99 = 0) [0 ..< length entries])"

definition as_cidrs :: "string set \<Rightarrow> cidr list" where
  "as_cidrs ips = map (\<lambda>ip. (ip, 32)) (sorted_list_of_set ips)"

text \<open>
  One turn of the loop over the pages: wait, read the version, modify; the handler when
  the call raises. The result is the value of \<^verbatim>\<open>version\<close> after the turn.
\<close>

definition modify_page ::
  "config \<Rightarrow> nat \<Rightarrow> string \<Rightarrow> message \<Rightarrow> cidr list option \<Rightarrow> cidr list option \<Rightarrow> int action" where
  "modify_page cfg fuel pl failed adds removes =
     andthen (wait_until_ready cfg fuel pl) (\<lambda>_.
     andthen (total (pl_info pl)) (\<lambda>info.
     andthen (total (modify_managed_prefix_list pl (Version info) adds removes)) (\<lambda>response.
       case response of
         Some v \<Rightarrow> done_with v
       | None \<Rightarrow> andthen (log_handler cfg failed 3 True True) (\<lambda>_. done_with (Version info)))))"

primrec remove_pages :: "config \<Rightarrow> nat \<Rightarrow> string \<Rightarrow> cidr list list \<Rightarrow> int \<Rightarrow> int action" where
  "remove_pages cfg fuel pl [] version = done_with version"
| "remove_pages cfg fuel pl (page # pages) version =
     andthen (modify_page cfg fuel pl RemoveFailed None (Some page))
       (remove_pages cfg fuel pl pages)"

definition remove_cidr_from_pl :: "config \<Rightarrow> nat \<Rightarrow> string \<Rightarrow> string set \<Rightarrow> int \<Rightarrow> int action" where
  "remove_cidr_from_pl cfg fuel pl ips version =
     (let entriestoremove = as_cidrs ips;
          paginatedentriestoremove = paginate entriestoremove
      in remove_pages cfg fuel pl paginatedentriestoremove version)"

primrec add_pages :: "config \<Rightarrow> nat \<Rightarrow> string \<Rightarrow> cidr list list \<Rightarrow> int \<Rightarrow> int action" where
  "add_pages cfg fuel pl [] version = done_with version"
| "add_pages cfg fuel pl (page # pages) version =
     andthen (modify_page cfg fuel pl AddFailed (Some page) None)
       (add_pages cfg fuel pl pages)"

definition add_cidr_to_pl :: "config \<Rightarrow> nat \<Rightarrow> string \<Rightarrow> string set \<Rightarrow> int \<Rightarrow> int action" where
  "add_cidr_to_pl cfg fuel pl ips version =
     (let entriestoadd = as_cidrs ips;
          paginatedentriestoadd = paginate entriestoadd
      in add_pages cfg fuel pl paginatedentriestoadd version)"

text \<open>\<^verbatim>\<open>update_cidrs_in_pl\<close> returns the new version, or \<^verbatim>\<open>None\<close> after the handler.\<close>

definition update_cidrs_in_pl ::
  "config \<Rightarrow> string \<Rightarrow> string set \<Rightarrow> string set \<Rightarrow> int \<Rightarrow> int option action" where
  "update_cidrs_in_pl cfg pl ipstoremove ipstoadd version =
     (let entriestoadd = as_cidrs ipstoadd;
          entriestoremove = as_cidrs ipstoremove
      in andthen (total (modify_managed_prefix_list pl version (Some entriestoadd) (Some entriestoremove)))
           (\<lambda>response.
              case response of
                Some v \<Rightarrow> done_with (Some v)
              | None \<Rightarrow> andthen (log_handler cfg UpdateFailed 3 True True) (\<lambda>_. done_with None)))"

subsection \<open>pl_resize\<close>

definition sgrulemaxutilizationpercentage :: "config \<Rightarrow> rat" where
  "sgrulemaxutilizationpercentage cfg =
     1 - of_int (security_group_quota_padding_percentage cfg) / 100"

text \<open>Python's \<^verbatim>\<open>int\<close> of a float drops the fraction, towards zero.\<close>

definition py_int :: "rat \<Rightarrow> int" where
  "py_int x = (if 0 \<le> x then \<lfloor>x\<rfloor> else \<lceil>x\<rceil>)"

definition pl_resize :: "config \<Rightarrow> string \<Rightarrow> rat \<Rightarrow> int \<Rightarrow> int option action" where
  "pl_resize cfg pl currentquota newplsize =
     (if sgrulemaxutilizationpercentage cfg = 0 then raise ZeroDivisionError
      else
        andthen
          (let newmaxent = \<lceil>of_int newplsize / sgrulemaxutilizationpercentage cfg\<rceil>
           in if of_int newmaxent > currentquota
              then andthen (log_handler cfg (ResizeClipped newmaxent) 2 True False)
                     (\<lambda>_. done_with (py_int (currentquota - 1)))
              else done_with newmaxent)
          (\<lambda>newmaxent.
             andthen (total (modify_managed_prefix_list_max_entries pl newmaxent)) (\<lambda>response.
               case response of
                 Some v \<Rightarrow> done_with (Some v)
               | None \<Rightarrow> andthen (log_handler cfg ResizeFailed 3 True True) (\<lambda>_. done_with None))))"

subsection \<open>lambda_handler\<close>

text \<open>Lines 534 to 544: the two differences and the length after the update.\<close>

definition itemstoadd :: "string list \<Rightarrow> string list \<Rightarrow> string set" where
  "itemstoadd sgiplist pliplist = set sgiplist - set pliplist"

definition itemstoremove :: "string list \<Rightarrow> string list \<Rightarrow> string set" where
  "itemstoremove sgiplist pliplist = set pliplist - set sgiplist"

definition newpllength :: "string list \<Rightarrow> string list \<Rightarrow> int" where
  "newpllength sgiplist pliplist =
     int (length pliplist) + int (card (itemstoadd sgiplist pliplist))
       - int (card (itemstoremove sgiplist pliplist))"

text \<open>Lines 556 to 568: the quota check and the utilisation warning.\<close>

definition check_quota :: "config \<Rightarrow> rat \<Rightarrow> int \<Rightarrow> unit action" where
  "check_quota cfg currentquota n =
     (if currentquota - of_int n < 1 then log_handler cfg QuotaExceeded 3 True True
      else if currentquota = 0 then raise ZeroDivisionError
      else if of_int n / currentquota > sgrulemaxutilizationpercentage cfg
        then log_handler cfg UtilizationWarning 3 True False
      else done_with ())"

text \<open>Lines 610 to 624 and lines 627 to 641: the removals, then the additions.\<close>

definition remove_stage :: "config \<Rightarrow> nat \<Rightarrow> string \<Rightarrow> plinfo \<Rightarrow> string set \<Rightarrow> unit action" where
  "remove_stage cfg fuel pl info toremove =
     (if card toremove > 0 then
        andthen (wait_until_ready cfg fuel pl) (\<lambda>_.
        andthen (remove_cidr_from_pl cfg fuel pl toremove (Version info)) (\<lambda>_. done_with ()))
      else done_with ())"

definition add_stage :: "config \<Rightarrow> nat \<Rightarrow> string \<Rightarrow> string set \<Rightarrow> unit action" where
  "add_stage cfg fuel pl toadd =
     (if card toadd > 0 then
        andthen (wait_until_ready cfg fuel pl) (\<lambda>_.
        andthen (total (pl_info pl)) (\<lambda>info'.
        andthen (add_cidr_to_pl cfg fuel pl toadd (Version info')) (\<lambda>_. done_with ())))
      else done_with ())"

text \<open>Lines 571 to 646: the resize, or the update of the entries.\<close>

definition apply_changes ::
  "config \<Rightarrow> nat \<Rightarrow> string \<Rightarrow> plinfo \<Rightarrow> rat \<Rightarrow> int \<Rightarrow> string set \<Rightarrow> string set \<Rightarrow> unit action" where
  "apply_changes cfg fuel pl info currentquota n toadd toremove =
     (if MaxEnt info < n then
        andthen (pl_resize cfg pl currentquota n) (\<lambda>_. wait_until_ready cfg fuel pl)
      else if (card toadd > 0 \<or> card toremove > 0) \<and> card toadd < 100 \<and> card toremove < 100 then
        andthen (wait_until_ready cfg fuel pl) (\<lambda>_.
        andthen (update_cidrs_in_pl cfg pl toremove toadd (Version info)) (\<lambda>_. done_with ()))
      else if (card toadd > 0 \<or> card toremove > 0) \<and> (card toadd > 100 \<or> card toremove > 100) then
        andthen (remove_stage cfg fuel pl info toremove) (\<lambda>_. add_stage cfg fuel pl toadd)
      else done_with ())"

text \<open>
  The event is a dict. A missing key goes to \<^verbatim>\<open>log_handler\<close> with the terminate flag;
  were that to return, the variable would be unbound where it is first used.
\<close>

definition event_key :: "config \<Rightarrow> (string \<rightharpoonup> string) \<Rightarrow> string \<Rightarrow> message \<Rightarrow> string option action" where
  "event_key cfg event k missing =
     (case event k of
        Some v \<Rightarrow> done_with (Some v)
      | None \<Rightarrow> andthen (log_handler cfg missing 3 True True) (\<lambda>_. done_with None))"

definition reconcile :: "config \<Rightarrow> nat \<Rightarrow> string \<Rightarrow> string \<Rightarrow> string action" where
  "reconcile cfg fuel sg pl =
     andthen (total (get_ips_in_sg sg)) (\<lambda>sgiplist.
     andthen (total (get_ips_in_pl pl)) (\<lambda>pliplist.
     andthen (total (pl_info pl)) (\<lambda>info.
     andthen (total get_sg_max_entries_quota_value) (\<lambda>currentquota.
     andthen (check_quota cfg currentquota (newpllength sgiplist pliplist)) (\<lambda>_.
     andthen (apply_changes cfg fuel pl info currentquota (newpllength sgiplist pliplist)
                (itemstoadd sgiplist pliplist) (itemstoremove sgiplist pliplist)) (\<lambda>_.
       done_with (''sync completed successfully for '' @ sg @ '' to '' @ pl)))))))"

definition lambda_handler :: "config \<Rightarrow> nat \<Rightarrow> (string \<rightharpoonup> string) \<Rightarrow> string action" where
  "lambda_handler cfg fuel event =
     andthen (event_key cfg event ''sg'' NoSecurityGroup) (\<lambda>sg'.
     andthen (event_key cfg event ''pl'' NoPrefixList) (\<lambda>pl'.
     andthen (event_key cfg event ''region'' NoRegion) (\<lambda>region'.
       case (region', sg', pl') of
         (Some region, Some sg, Some pl) \<Rightarrow> reconcile cfg fuel sg pl
       | _ \<Rightarrow> raise NameError)))"

section \<open>Example inputs\<close>

definition example_config :: config where
  "example_config = \<lparr>log_level = 1, security_group_quota_padding_percentage = 10\<rparr>"

definition example_event :: "string \<rightharpoonup> string" where
  "example_event = [''sg'' \<mapsto> ''sg-1'', ''pl'' \<mapsto> ''pl-1'', ''region'' \<mapsto> ''eu-west-1'']"

text \<open>
  The group has the addresses 1, 2, 3 and the prefix list holds 2, 3, 4; the quota is 1000
  and the prefix list has room for 100 entries.
\<close>

definition example_world :: world where
  "example_world =
     \<lparr>sg_addresses = [''10.0.0.1'', ''10.0.0.2'', ''10.0.0.3''],
      pl_entries = [(''10.0.0.2'', 32), (''10.0.0.3'', 32), (''10.0.0.4'', 32)],
      pl_maxentries = 100, pl_version = 7, pl_state = ''modify-complete'', pl_statemessage = [],
      pl_future = [], quota_value = 1000, remote_errors = []\<rparr>"

text \<open>Addresses \<^verbatim>\<open>10.0.0.n\<close>, for inputs with many of them.\<close>

fun digits :: "nat \<Rightarrow> string" where
  "digits n =
     (if n < 10 then [char_of (48 + n)] else digits (n div 10) @ [char_of (48 + n mod 10)])"

definition number :: "string \<Rightarrow> nat" where
  "number s = foldl (\<lambda>a c. 10 * a + (of_char c - 48)) 0 s"

definition address :: "nat \<Rightarrow> string" where
  "address n = ''10.0.0.'' @ digits n"

text \<open>A group with the addresses \<^verbatim>\<open>10.0.0.0\<close> up to \<open>n\<close> of them, and an empty prefix list.\<close>

definition empty_list_world :: "nat \<Rightarrow> world" where
  "empty_list_world n =
     \<lparr>sg_addresses = map address [0 ..< n], pl_entries = [],
      pl_maxentries = 1000, pl_version = 1, pl_state = ''create-complete'', pl_statemessage = [],
      pl_future = [], quota_value = 1000, remote_errors = []\<rparr>"

text \<open>A prefix list with \<open>n\<close> such addresses, and a group with one other address.\<close>

definition crowded_world :: "nat \<Rightarrow> world" where
  "crowded_world n =
     \<lparr>sg_addresses = [''10.0.1.1''], pl_entries = map (\<lambda>k. (address k, 32)) [0 ..< n],
      pl_maxentries = 1000, pl_version = 1, pl_state = ''modify-complete'', pl_statemessage = [],
      pl_future = [], quota_value = 1000, remote_errors = []\<rparr>"

section \<open>What is read off the events of a pass\<close>

text \<open>The entries sent by the modify calls among the events, in order.\<close>

definition entry_call :: "event \<Rightarrow> (cidr list option \<times> cidr list option) list" where
  "entry_call e = (case e of ModifyEntries pl v adds removes r \<Rightarrow> [(adds, removes)] | _ \<Rightarrow> [])"

definition entry_calls :: "event list \<Rightarrow> (cidr list option \<times> cidr list option) list" where
  "entry_calls es = concat (map entry_call es)"





text \<open>
  The loops of \<^verbatim>\<open>remove_cidr_from_pl\<close> and \<^verbatim>\<open>add_cidr_to_pl\<close> are one loop, up to
  the message and the keyword under which a page is passed.
\<close>

primrec page_loop ::
  "config \<Rightarrow> nat \<Rightarrow> string \<Rightarrow> message \<Rightarrow> (cidr list \<Rightarrow> cidr list option \<times> cidr list option)
     \<Rightarrow> cidr list list \<Rightarrow> int \<Rightarrow> int action" where
  "page_loop cfg fuel pl failed wrap [] version = done_with version"
| "page_loop cfg fuel pl failed wrap (page # pages) version =
     andthen (modify_page cfg fuel pl failed (fst (wrap page)) (snd (wrap page)))
       (page_loop cfg fuel pl failed wrap pages)"

text \<open>
  \<open>removes_first calls\<close>: once a call has passed entries to add, no later call passes
  entries to remove.
\<close>

primrec removes_first :: "(cidr list option \<times> cidr list option) list \<Rightarrow> bool" where
  "removes_first [] = True"
| "removes_first (c # cs) =
     ((fst c = None \<or> list_all (\<lambda>c'. snd c' = None) cs) \<and> removes_first cs)"

text \<open>
  A world at rest: the prefix list is ready and stays so, its version is advanced by the
  pass only, and no call is refused.
\<close>

definition calm :: "world \<Rightarrow> bool" where
  "calm w =
     (pl_future w = [] \<and> remote_errors w = []
      \<and> (pl_state w = ''create-complete'' \<or> pl_state w = ''modify-complete''
          \<or> pl_state w = ''restore-complete''))"

section \<open>Sequencing\<close>

lemma outcome_andthen:
  "outcome (andthen m f w) =
     (case outcome (m w) of Inl e \<Rightarrow> Inl e | Inr a \<Rightarrow> outcome (f a (world_after (m w))))"
  by (cases "m w") (auto simp: andthen_def split: sum.splits prod.splits)

lemma world_after_andthen:
  "world_after (andthen m f w) =
     (case outcome (m w) of Inl e \<Rightarrow> world_after (m w) | Inr a \<Rightarrow> world_after (f a (world_after (m w))))"
  by (cases "m w") (auto simp: andthen_def split: sum.splits prod.splits)

lemma events_andthen:
  "events (andthen m f w) =
     events (m w) @ (case outcome (m w) of Inl e \<Rightarrow> [] | Inr a \<Rightarrow> events (f a (world_after (m w))))"
  by (cases "m w") (auto simp: andthen_def split: sum.splits prod.splits)

lemmas andthen_simps = outcome_andthen world_after_andthen events_andthen

lemma total_simps:
  "outcome (total m w) = Inr (fst (m w))"
  "world_after (total m w) = fst (snd (m w))"
  "events (total m w) = snd (snd (m w))"
  by (auto simp: total_def split: prod.splits)

lemma done_with_simps:
  "outcome (done_with a w) = Inr a" "world_after (done_with a w) = w" "events (done_with a w) = []"
  by (auto simp: done_with_def)

lemma raise_simps:
  "outcome (raise e w) = Inl e" "world_after (raise e w) = w" "events (raise e w) = []"
  by (auto simp: raise_def)

lemma log_handler_simps:
  "outcome (log_handler cfg m sev send term w) = (if term then Inl SysExit else Inr ())"
  "world_after (log_handler cfg m sev send term w) = w"
  "events (log_handler cfg m sev send term w) =
     Print (log_prefix cfg sev) m # (if send then [SnsPublish (log_subject cfg sev) m] else [])"
  by (auto simp: log_handler_def Let_def)

lemma describe_simps:
  "fst (describe_managed_prefix_lists pl w) =
     \<lparr>MaxEntries = pl_maxentries w, PlVersion = pl_version w,
      State = pl_state w, StateMessage = pl_statemessage w\<rparr>"
  "fst (snd (describe_managed_prefix_lists pl w)) = advance w"
  "snd (snd (describe_managed_prefix_lists pl w)) =
     [DescribeManagedPrefixLists pl (fst (describe_managed_prefix_lists pl w))]"
  by (auto simp: describe_managed_prefix_lists_def Let_def)

section \<open>The state poller\<close>

lemma outcome_pl_ready:
  "outcome (pl_ready cfg pl w) =
     (if pl_state w = ''modify-in-progress'' \<or> pl_state w = ''restore-in-progress'' then Inr False
      else if pl_state w = ''create-complete'' \<or> pl_state w = ''modify-complete''
              \<or> pl_state w = ''restore-complete'' then Inr True
      else Inl SysExit)"
  by (simp add: pl_ready_def Let_def andthen_simps total_simps done_with_simps
      log_handler_simps describe_simps)

text \<open>
  C3, as the code has it. \<^verbatim>\<open>pl_ready\<close> answers "not ready" for modify-in-progress and
  restore-in-progress, and the caller's loop then sleeps once and asks again. It answers
  "ready" for the three complete states. For every other state, create-in-progress among
  them, it ends the pass; for create-in-progress it prints the critical line and publishes
  no alert.
\<close>

theorem pl_ready_by_state:
  "outcome (pl_ready cfg pl w) =
     (if pl_state w = ''modify-in-progress'' \<or> pl_state w = ''restore-in-progress'' then Inr False
      else if pl_state w = ''create-complete'' \<or> pl_state w = ''modify-complete''
              \<or> pl_state w = ''restore-complete'' then Inr True
      else Inl SysExit)
   \<and> while_not_plstatus cfg (Suc fuel) pl False
       = andthen sleep (\<lambda>_. andthen (pl_ready cfg pl) (while_not_plstatus cfg fuel pl))
   \<and> (if pl_state w = ''create-in-progress''
       then events (pl_ready cfg pl w) =
              [DescribeManagedPrefixLists pl (fst (describe_managed_prefix_lists pl w)),
               Print (log_prefix cfg 3) PlCreating]
       else True)"
  by (simp add: outcome_pl_ready)
    (simp add: pl_ready_def Let_def andthen_simps total_simps log_handler_simps describe_simps)

theorem pl_ready_by_state_witness:
  "outcome (pl_ready example_config ''pl-1'' (example_world\<lparr>pl_state := ''modify-in-progress''\<rparr>))
     = Inr False
   \<and> outcome (pl_ready example_config ''pl-1'' (example_world\<lparr>pl_state := ''restore-in-progress''\<rparr>))
     = Inr False
   \<and> outcome (pl_ready example_config ''pl-1'' (example_world\<lparr>pl_state := ''modify-failed''\<rparr>))
     = Inl SysExit"
  using pl_ready_by_state [of example_config "''pl-1''" "example_world\<lparr>pl_state := ''modify-in-progress''\<rparr>"]
        pl_ready_by_state [of example_config "''pl-1''" "example_world\<lparr>pl_state := ''restore-in-progress''\<rparr>"]
        pl_ready_by_state [of example_config "''pl-1''" "example_world\<lparr>pl_state := ''modify-failed''\<rparr>"]
  by simp

text \<open>
  C3 as stated fails: a prefix list that is being created ends the pass with
  \<^verbatim>\<open>sys.exit(1)\<close> instead of the answer "not ready".
\<close>

theorem pl_ready_create_in_progress_counterexample:
  "pl_ready example_config ''pl-1'' (example_world\<lparr>pl_state := ''create-in-progress''\<rparr>)
     = (Inl SysExit,
        example_world\<lparr>pl_state := ''create-in-progress''\<rparr>,
        [DescribeManagedPrefixLists ''pl-1''
           \<lparr>MaxEntries = 100, PlVersion = 7, State = ''create-in-progress'', StateMessage = []\<rparr>,
         Print ''CRITICAL: '' PlCreating])"
  by code_simp

section \<open>Pages\<close>

lemma no_multiple_between: "filter (\<lambda>i. i mod 99 = 0) [1 ..< min 99 n] = []"
  by (auto simp: filter_empty_conv)

lemma upt_join: "i \<le> j \<Longrightarrow> j \<le> k \<Longrightarrow> [i ..< k] = [i ..< j] @ [j ..< k]"
  using upt_add_eq_append [of i j "k - j"] by simp

lemma upt_first_page:
  assumes "0 < n"
  shows "[0 ..< n] = 0 # [1 ..< min 99 n] @ [99 ..< n]"
proof -
  have "[0 ..< n] = 0 # [1 ..< n]"
    using assms by (simp add: upt_conv_Cons)
  moreover have "[1 ..< n] = [1 ..< min 99 n] @ [min 99 n ..< n]"
    using assms by (intro upt_join) simp_all
  moreover have "[min 99 n ..< n] = [99 ..< n]"
    by (cases "99 \<le> n") (simp_all add: min_def)
  ultimately show ?thesis by simp
qed

lemma multiples_shift:
  "filter (\<lambda>i. i mod 99 = 0) [99 ..< n]
     = map (\<lambda>i. i + 99) (filter (\<lambda>i. i mod 99 = 0) [0 ..< n - 99])"
proof -
  have "[99 ..< n] = map (\<lambda>i. i + 99) [0 ..< n - 99]"
  proof (cases "99 \<le> n")
    case True
    then have "n - 99 + 99 = n" by simp
    then show ?thesis by (simp add: map_add_upt)
  next
    case False
    then show ?thesis by simp
  qed
  then show ?thesis
    by (simp add: filter_map comp_def)
qed

text \<open>The pages are the first 99 entries, then the pages of the rest.\<close>

lemma paginate_rec:
  "paginate xs = (if xs = [] then [] else take 99 xs # paginate (drop 99 xs))"
proof (cases "xs = []")
  case True
  then show ?thesis by (simp add: paginate_def)
next
  case False
  then have "0 < length xs" by simp
  then have "filter (\<lambda>i. i mod 99 = 0) [0 ..< length xs]
      = 0 # map (\<lambda>i. i + 99) (filter (\<lambda>i. i mod 99 = 0) [0 ..< length xs - 99])"
    by (simp only: upt_first_page filter.simps filter_append no_multiple_between multiples_shift)
      simp
  then show ?thesis
    using False by (simp add: paginate_def comp_def add.commute)
qed

lemma concat_paginate: "concat (paginate xs) = xs"
proof (induction xs rule: length_induct)
  case (1 xs)
  show ?case
  proof (cases "xs = []")
    case True
    then show ?thesis by (simp add: paginate_def)
  next
    case False
    then have "length (drop 99 xs) < length xs" by simp
    with 1 have "concat (paginate (drop 99 xs)) = drop 99 xs" by blast
    then show ?thesis using False by (subst paginate_rec) simp
  qed
qed


lemma paginate_Nil_iff: "paginate xs = [] \<longleftrightarrow> xs = []"
  by (subst paginate_rec) simp

lemma paginate_short: "xs \<noteq> [] \<Longrightarrow> length xs \<le> 99 \<Longrightarrow> paginate xs = [xs]"
  by (subst paginate_rec) (simp add: paginate_Nil_iff)

section \<open>The difference\<close>

text \<open>
  C7. The pass adds the addresses of the group that the prefix list lacks and removes the
  addresses of the prefix list that the group lacks; no address is in both sets. The three
  values are functions of the two lists read, defined for every pair of lists.
\<close>

theorem diff_is_set_difference:
  "itemstoadd D P = set D - set P
   \<and> itemstoremove D P = set P - set D
   \<and> itemstoadd D P \<inter> itemstoremove D P = {}"
  by (auto simp: itemstoadd_def itemstoremove_def)

theorem diff_is_set_difference_witness:
  "itemstoadd [''10.0.0.1'', ''10.0.0.2'', ''10.0.0.3''] [''10.0.0.2'', ''10.0.0.3'', ''10.0.0.4'']
     = {''10.0.0.1''}
   \<and> itemstoremove [''10.0.0.1'', ''10.0.0.2'', ''10.0.0.3''] [''10.0.0.2'', ''10.0.0.3'', ''10.0.0.4'']
     = {''10.0.0.4''}"
  using diff_is_set_difference
    [of "[''10.0.0.1'', ''10.0.0.2'', ''10.0.0.3'']" "[''10.0.0.2'', ''10.0.0.3'', ''10.0.0.4'']"]
  by auto

section \<open>The resize\<close>




section \<open>The quota check\<close>

lemma check_quota_simps:
  "outcome (check_quota cfg q n w) =
     (if q - of_int n < 1 then Inl SysExit else if q = 0 then Inl ZeroDivisionError else Inr ())"
  "world_after (check_quota cfg q n w) = w"
  "events (check_quota cfg q n w) =
     (if q - of_int n < 1
      then [Print (log_prefix cfg 3) QuotaExceeded, SnsPublish (log_subject cfg 3) QuotaExceeded]
      else if q \<noteq> 0 \<and> of_int n / q > sgrulemaxutilizationpercentage cfg
      then [Print (log_prefix cfg 3) UtilizationWarning, SnsPublish (log_subject cfg 3) UtilizationWarning]
      else [])"
  by (auto simp: check_quota_def log_handler_simps raise_simps done_with_simps)

lemma newpllength_nonneg: "0 \<le> newpllength D P"
proof -
  have "card (set P - set D) \<le> card (set P)"
    by (intro card_mono) auto
  also have "\<dots> \<le> length P"
    by (rule card_length)
  finally show ?thesis
    by (simp add: newpllength_def itemstoremove_def)
qed

lemma quota_not_zero: "\<not> q - rat_of_int (newpllength D P) < 1 \<Longrightarrow> q \<noteq> 0"
  using newpllength_nonneg [of D P] by auto

lemma event_key_Some:
  "event k = Some v \<Longrightarrow> event_key cfg event k m = done_with (Some v)"
  by (simp add: event_key_def)

lemma lambda_handler_reconcile:
  assumes "event ''sg'' = Some sg" "event ''pl'' = Some pl" "event ''region'' = Some region"
  shows "lambda_handler cfg fuel event w = reconcile cfg fuel sg pl w"
  using assms by (simp add: lambda_handler_def event_key_Some andthen_def done_with_def)

lemma reader_simps:
  "fst (get_ips_in_sg sg w) = sg_addresses w"
  "fst (snd (get_ips_in_sg sg w)) = w"
  "snd (snd (get_ips_in_sg sg w)) = [DescribeNetworkInterfaces sg]"
  "fst (get_ips_in_pl pl w) = map fst (filter (\<lambda>entry. snd entry = 32) (pl_entries w))"
  "fst (snd (get_ips_in_pl pl w)) = w"
  "snd (snd (get_ips_in_pl pl w)) = [GetManagedPrefixListEntries pl]"
  "fst (pl_info pl w) = \<lparr>MaxEnt = pl_maxentries w, Version = pl_version w\<rparr>"
  "fst (snd (pl_info pl w)) = advance w"
  "snd (snd (pl_info pl w)) = [DescribeManagedPrefixLists pl (fst (describe_managed_prefix_lists pl w))]"
  "fst (get_sg_max_entries_quota_value w) = quota_value w"
  "fst (snd (get_sg_max_entries_quota_value w)) = w"
  "snd (snd (get_sg_max_entries_quota_value w)) = [GetServiceQuota]"
  by (auto simp: get_ips_in_sg_def get_ips_in_pl_def pl_info_def get_sg_max_entries_quota_value_def
      describe_managed_prefix_lists_def Let_def split: prod.splits)

lemma advance_simps:
  "sg_addresses (advance w) = sg_addresses w"
  "pl_entries (advance w) = pl_entries w"
  "pl_maxentries (advance w) = pl_maxentries w"
  "quota_value (advance w) = quota_value w"
  "remote_errors (advance w) = remote_errors w"
  by (auto simp: advance_def split: list.splits)

text \<open>
  C5. With the three keys in the event, the pass reads the group, the prefix list, its
  description and the quota, and then compares. When the quota less the new length is below
  one, it prints and publishes the critical message and exits: these six events are all it
  does. Otherwise it goes on to the resize or the update (after the utilisation warning, if
  that is due), and succeeds when that does.
\<close>

theorem quota_abort:
  fixes cfg fuel event w sg pl region
  defines "pliplist \<equiv> map fst (filter (\<lambda>entry. snd entry = 32) (pl_entries w))"
  defines "n \<equiv> newpllength (sg_addresses w) pliplist"
  defines "reads \<equiv> [DescribeNetworkInterfaces sg, GetManagedPrefixListEntries pl,
                     DescribeManagedPrefixLists pl (fst (describe_managed_prefix_lists pl w)),
                     GetServiceQuota]"
  defines "run \<equiv> lambda_handler cfg fuel event w"
  defines "rest \<equiv> apply_changes cfg fuel pl \<lparr>MaxEnt = pl_maxentries w, Version = pl_version w\<rparr>
                     (quota_value w) n (itemstoadd (sg_addresses w) pliplist)
                     (itemstoremove (sg_addresses w) pliplist) (advance w)"
  assumes "event ''sg'' = Some sg" "event ''pl'' = Some pl" "event ''region'' = Some region"
  shows "if quota_value w - of_int n < 1
         then outcome run = Inl SysExit
              \<and> events run = reads @ [Print (log_prefix cfg 3) QuotaExceeded,
                                       SnsPublish (log_subject cfg 3) QuotaExceeded]
              \<and> world_after run = advance w
         else outcome run = (case outcome rest of
                               Inl e \<Rightarrow> Inl e
                             | Inr u \<Rightarrow> Inr (''sync completed successfully for '' @ sg @ '' to '' @ pl))
              \<and> events run =
                  reads
                  @ (if of_int n / quota_value w > sgrulemaxutilizationpercentage cfg
                     then [Print (log_prefix cfg 3) UtilizationWarning,
                           SnsPublish (log_subject cfg 3) UtilizationWarning]
                     else [])
                  @ events rest"
  unfolding run_def lambda_handler_reconcile [OF assms(6-8)]
  using quota_not_zero [of "quota_value w" "sg_addresses w" pliplist]
  by (simp add: reconcile_def andthen_simps total_simps done_with_simps reader_simps
      check_quota_simps advance_simps pliplist_def n_def reads_def rest_def
      split: sum.splits)

lemma example_event_keys:
  "example_event ''sg'' = Some ''sg-1''" "example_event ''pl'' = Some ''pl-1''"
  "example_event ''region'' = Some ''eu-west-1''"
  by (simp_all add: example_event_def)

text \<open>
  The example has three addresses after the update: with a quota of 3 the pass exits, with
  a quota of 4 it goes on and succeeds.
\<close>

theorem quota_abort_witness:
  "outcome (lambda_handler example_config 5 example_event (example_world\<lparr>quota_value := 3\<rparr>))
     = Inl SysExit
   \<and> events (lambda_handler example_config 5 example_event (example_world\<lparr>quota_value := 3\<rparr>))
     = [DescribeNetworkInterfaces ''sg-1'', GetManagedPrefixListEntries ''pl-1'',
        DescribeManagedPrefixLists ''pl-1''
          \<lparr>MaxEntries = 100, PlVersion = 7, State = ''modify-complete'', StateMessage = []\<rparr>,
        GetServiceQuota,
        Print ''CRITICAL: '' QuotaExceeded,
        SnsPublish ''CRITICAL: AutoSG2PL has encountered a critical error'' QuotaExceeded]
   \<and> outcome (lambda_handler example_config 5 example_event (example_world\<lparr>quota_value := 4\<rparr>))
     = Inr ''sync completed successfully for sg-1 to pl-1''"
proof -
  let ?W3 = "example_world\<lparr>quota_value := 3\<rparr>"
  let ?W4 = "example_world\<lparr>quota_value := 4\<rparr>"
  let ?n = "\<lambda>w. newpllength (sg_addresses w) (map fst (filter (\<lambda>entry. snd entry = 32) (pl_entries w)))"
  have a3: "quota_value ?W3 - of_int (?n ?W3) < 1"
    by code_simp
  have a4: "\<not> quota_value ?W4 - of_int (?n ?W4) < 1"
    by code_simp
  have rest: "outcome (apply_changes example_config 5 ''pl-1''
                 \<lparr>MaxEnt = pl_maxentries ?W4, Version = pl_version ?W4\<rparr> (quota_value ?W4) (?n ?W4)
                 (itemstoadd (sg_addresses ?W4) (map fst (filter (\<lambda>entry. snd entry = 32) (pl_entries ?W4))))
                 (itemstoremove (sg_addresses ?W4) (map fst (filter (\<lambda>entry. snd entry = 32) (pl_entries ?W4))))
                 (advance ?W4)) = Inr ()"
    by code_simp
  have l: "log_prefix example_config 3 = ''CRITICAL: ''"
          "log_subject example_config 3 = ''CRITICAL: AutoSG2PL has encountered a critical error''"
    by (simp_all add: log_prefix_def log_subject_def example_config_def)
  have d: "fst (describe_managed_prefix_lists ''pl-1'' ?W3)
             = \<lparr>MaxEntries = 100, PlVersion = 7, State = ''modify-complete'', StateMessage = []\<rparr>"
    by (simp add: describe_simps example_world_def)
  from quota_abort [where cfg = example_config and fuel = 5 and w = ?W3, OF example_event_keys] a3
  have "outcome (lambda_handler example_config 5 example_event ?W3) = Inl SysExit"
    and "events (lambda_handler example_config 5 example_event ?W3)
          = [DescribeNetworkInterfaces ''sg-1'', GetManagedPrefixListEntries ''pl-1'',
             DescribeManagedPrefixLists ''pl-1'' (fst (describe_managed_prefix_lists ''pl-1'' ?W3)),
             GetServiceQuota]
            @ [Print (log_prefix example_config 3) QuotaExceeded,
               SnsPublish (log_subject example_config 3) QuotaExceeded]"
    by (simp_all only: if_True)
  moreover
  from quota_abort [where cfg = example_config and fuel = 5 and w = ?W4, OF example_event_keys] a4
  have "outcome (lambda_handler example_config 5 example_event ?W4)
          = (case outcome (apply_changes example_config 5 ''pl-1''
                 \<lparr>MaxEnt = pl_maxentries ?W4, Version = pl_version ?W4\<rparr> (quota_value ?W4) (?n ?W4)
                 (itemstoadd (sg_addresses ?W4) (map fst (filter (\<lambda>entry. snd entry = 32) (pl_entries ?W4))))
                 (itemstoremove (sg_addresses ?W4) (map fst (filter (\<lambda>entry. snd entry = 32) (pl_entries ?W4))))
                 (advance ?W4)) of
               Inl e \<Rightarrow> Inl e
             | Inr u \<Rightarrow> Inr (''sync completed successfully for '' @ ''sg-1'' @ '' to '' @ ''pl-1''))"
    by (simp only: if_False)
  ultimately show ?thesis
    unfolding rest l d by simp
qed

section \<open>Waiting leaves the entries alone\<close>

lemma entry_calls_simps:
  "entry_calls [] = []"
  "entry_calls (e # es) = entry_call e @ entry_calls es"
  "entry_calls (es @ es') = entry_calls es @ entry_calls es'"
  by (simp_all add: entry_calls_def)

lemma entry_call_simps:
  "entry_call (DescribeNetworkInterfaces sg) = []"
  "entry_call (GetManagedPrefixListEntries pl) = []"
  "entry_call (DescribeManagedPrefixLists pl d) = []"
  "entry_call GetServiceQuota = []"
  "entry_call (ModifyEntries pl v adds removes r) = [(adds, removes)]"
  "entry_call (ModifyMaxEntries pl n r) = []"
  "entry_call Sleep = []"
  "entry_call (Print s m) = []"
  "entry_call (SnsPublish s m) = []"
  by (simp_all add: entry_call_def)

lemma world_after_pl_ready: "world_after (pl_ready cfg pl w) = advance w"
  by (simp add: pl_ready_def Let_def andthen_simps total_simps done_with_simps
      log_handler_simps describe_simps)

lemma entry_calls_pl_ready: "entry_calls (events (pl_ready cfg pl w)) = []"
  by (simp add: pl_ready_def Let_def andthen_simps total_simps done_with_simps
      log_handler_simps describe_simps entry_calls_simps entry_call_simps)

lemma sleep_simps:
  "outcome (sleep w) = Inr ()" "world_after (sleep w) = w" "events (sleep w) = [Sleep]"
  by (simp_all add: sleep_def)

lemma while_not_plstatus_frame:
  "pl_entries (world_after (while_not_plstatus cfg fuel pl b w)) = pl_entries w
   \<and> sg_addresses (world_after (while_not_plstatus cfg fuel pl b w)) = sg_addresses w
   \<and> entry_calls (events (while_not_plstatus cfg fuel pl b w)) = []"
proof (induction fuel arbitrary: b w)
  case 0
  show ?case
    by (simp add: done_with_simps raise_simps entry_calls_simps)
next
  case (Suc fuel)
  show ?case
    by (simp add: Suc andthen_simps sleep_simps done_with_simps world_after_pl_ready
        entry_calls_pl_ready advance_simps entry_calls_simps entry_call_simps
        split: sum.splits)
qed

lemma wait_until_ready_frame:
  "pl_entries (world_after (wait_until_ready cfg fuel pl w)) = pl_entries w"
  "sg_addresses (world_after (wait_until_ready cfg fuel pl w)) = sg_addresses w"
  "entry_calls (events (wait_until_ready cfg fuel pl w)) = []"
  by (simp_all add: wait_until_ready_def andthen_simps while_not_plstatus_frame
      world_after_pl_ready entry_calls_pl_ready advance_simps entry_calls_simps
      split: sum.splits)

section \<open>One page\<close>

lemma modify_simps:
  "fst (modify_managed_prefix_list pl v adds removes w) =
     (if refused w \<or> v \<noteq> pl_version w then None else Some (pl_version w + 1))"
  "pl_entries (fst (snd (modify_managed_prefix_list pl v adds removes w))) =
     (if refused w \<or> v \<noteq> pl_version w then pl_entries w
      else filter (\<lambda>e. e \<notin> set (given removes)) (pl_entries w) @ given adds)"
  "sg_addresses (fst (snd (modify_managed_prefix_list pl v adds removes w))) = sg_addresses w"
  "snd (snd (modify_managed_prefix_list pl v adds removes w)) =
     [ModifyEntries pl v adds removes (fst (modify_managed_prefix_list pl v adds removes w))]"
  by (simp_all add: modify_managed_prefix_list_def Let_def)

lemma modify_page_calls:
  "entry_calls (events (modify_page cfg fuel pl failed adds removes w)) =
     (case outcome (wait_until_ready cfg fuel pl w) of Inl e \<Rightarrow> [] | Inr u \<Rightarrow> [(adds, removes)])"
  by (simp add: modify_page_def andthen_simps total_simps done_with_simps log_handler_simps
      reader_simps modify_simps wait_until_ready_frame entry_calls_simps entry_call_simps
      split: sum.splits option.splits)

lemma modify_page_waited:
  "outcome (modify_page cfg fuel pl failed adds removes w) = Inr v
     \<Longrightarrow> outcome (wait_until_ready cfg fuel pl w) = Inr ()"
  by (auto simp: modify_page_def andthen_simps split: sum.splits)

lemma modify_page_entries:
  "outcome (modify_page cfg fuel pl failed adds removes w) = Inr v
     \<Longrightarrow> pl_entries (world_after (modify_page cfg fuel pl failed adds removes w))
         = filter (\<lambda>e. e \<notin> set (given removes)) (pl_entries w) @ given adds"
  by (auto simp: modify_page_def andthen_simps total_simps done_with_simps log_handler_simps
      reader_simps modify_simps wait_until_ready_frame advance_simps
      split: sum.splits option.splits if_splits)

lemma modify_page_keeps:
  "e \<in> set (pl_entries w) \<Longrightarrow> e \<notin> set (given removes)
     \<Longrightarrow> e \<in> set (pl_entries (world_after (modify_page cfg fuel pl failed adds removes w)))"
  by (auto simp: modify_page_def andthen_simps total_simps done_with_simps log_handler_simps
      reader_simps modify_simps wait_until_ready_frame advance_simps
      split: sum.splits option.splits if_splits)



section \<open>Versions read before a page is sent\<close>






section \<open>The loop over the pages\<close>

lemma remove_pages_loop:
  "remove_pages cfg fuel pl pages = page_loop cfg fuel pl RemoveFailed (\<lambda>p. (None, Some p)) pages"
  by (induction pages) (rule ext, simp)+

lemma add_pages_loop:
  "add_pages cfg fuel pl pages = page_loop cfg fuel pl AddFailed (\<lambda>p. (Some p, None)) pages"
  by (induction pages) (rule ext, simp)+

lemma page_loop_calls_prefix:
  "\<exists>k. entry_calls (events (page_loop cfg fuel pl failed wrap pages v w)) = map wrap (take k pages)"
proof (induction pages arbitrary: v w)
  case Nil
  show ?case by (simp add: done_with_simps entry_calls_simps)
next
  case (Cons page pages)
  let ?m = "modify_page cfg fuel pl failed (fst (wrap page)) (snd (wrap page))"
  show ?case
  proof (cases "outcome (?m w)")
    case (Inl e)
    then have "entry_calls (events (page_loop cfg fuel pl failed wrap (page # pages) v w))
        = entry_calls (events (?m w))"
      by (simp add: andthen_simps)
    also have "\<dots> = map wrap (take 0 (page # pages)) \<or> \<dots> = map wrap (take 1 (page # pages))"
      by (simp add: modify_page_calls split: sum.splits)
    finally show ?thesis by blast
  next
    case (Inr v')
    obtain k where k: "entry_calls (events (page_loop cfg fuel pl failed wrap pages v' (world_after (?m w))))
        = map wrap (take k pages)"
      using Cons.IH by blast
    have "entry_calls (events (page_loop cfg fuel pl failed wrap (page # pages) v w))
        = map wrap (take (Suc k) (page # pages))"
      using Inr k modify_page_waited [OF Inr]
      by (simp add: andthen_simps entry_calls_simps modify_page_calls)
    then show ?thesis by blast
  qed
qed

lemma page_loop_done:
  "outcome (page_loop cfg fuel pl failed wrap pages v w) = Inr v'
     \<Longrightarrow> entry_calls (events (page_loop cfg fuel pl failed wrap pages v w)) = map wrap pages
       \<and> pl_entries (world_after (page_loop cfg fuel pl failed wrap pages v w))
           = foldl (\<lambda>es p. filter (\<lambda>e. e \<notin> set (given (snd (wrap p)))) es @ given (fst (wrap p)))
               (pl_entries w) pages"
proof (induction pages arbitrary: v w)
  case Nil
  show ?case by (simp add: done_with_simps entry_calls_simps)
next
  case (Cons page pages)
  let ?m = "modify_page cfg fuel pl failed (fst (wrap page)) (snd (wrap page))"
  from Cons.prems obtain u where u: "outcome (?m w) = Inr u"
    by (auto simp: andthen_simps split: sum.splits)
  with Cons.prems have "outcome (page_loop cfg fuel pl failed wrap pages u (world_after (?m w))) = Inr v'"
    by (simp add: andthen_simps)
  from Cons.IH [OF this] show ?case
    using u modify_page_waited [OF u] modify_page_entries [OF u]
    by (simp add: andthen_simps entry_calls_simps modify_page_calls)
qed

lemma page_loop_keeps:
  "e \<in> set (pl_entries w) \<Longrightarrow> (\<forall>p \<in> set pages. e \<notin> set (given (snd (wrap p))))
     \<Longrightarrow> e \<in> set (pl_entries (world_after (page_loop cfg fuel pl failed wrap pages v w)))"
proof (induction pages arbitrary: v w)
  case Nil
  then show ?case by (simp add: done_with_simps)
next
  case (Cons page pages)
  then show ?case
    by (auto simp: andthen_simps intro: modify_page_keeps split: sum.splits)
qed



section \<open>The two mutators with pages\<close>

lemma given_simps: "given None = []" "given (Some xs) = xs"
  by (simp_all add: given_def)

lemma length_as_cidrs: "length (as_cidrs A) = card A"
  by (simp add: as_cidrs_def)

lemma as_cidrs_empty: "card A = 0 \<Longrightarrow> as_cidrs A = []"
  using length_as_cidrs [of A] by simp


lemma as_cidrs_mask: "e \<in> set (as_cidrs A) \<Longrightarrow> snd e = 32"
  by (auto simp: as_cidrs_def)

lemma page_mask: "p \<in> set (paginate (as_cidrs A)) \<Longrightarrow> e \<in> set p \<Longrightarrow> snd e = 32"
proof -
  assume "p \<in> set (paginate (as_cidrs A))" "e \<in> set p"
  then have "e \<in> set (concat (paginate (as_cidrs A)))" by auto
  then show ?thesis by (simp add: concat_paginate as_cidrs_mask)
qed

lemma foldl_removes:
  "foldl (\<lambda>es p. filter (\<lambda>e. e \<notin> set (given (Some p))) es @ given None) E pages
     = filter (\<lambda>e. e \<notin> set (concat pages)) E"
  by (induction pages arbitrary: E) (simp_all add: given_simps)

lemma foldl_adds:
  "foldl (\<lambda>es p. filter (\<lambda>e. e \<notin> set (given None)) es @ given (Some p)) E pages
     = E @ concat pages"
  by (induction pages arbitrary: E) (simp_all add: given_simps)

lemma remove_cidr_done:
  assumes "outcome (remove_cidr_from_pl cfg fuel pl ips v w) = Inr v'"
  shows "entry_calls (events (remove_cidr_from_pl cfg fuel pl ips v w))
           = map (\<lambda>p. (None, Some p)) (paginate (as_cidrs ips))"
    and "pl_entries (world_after (remove_cidr_from_pl cfg fuel pl ips v w))
           = filter (\<lambda>e. e \<notin> set (as_cidrs ips)) (pl_entries w)"
  using page_loop_done [of cfg fuel pl RemoveFailed "\<lambda>p. (None, Some p)" "paginate (as_cidrs ips)" v w v']
    assms
  by (simp_all add: remove_cidr_from_pl_def remove_pages_loop Let_def foldl_removes concat_paginate)

lemma add_cidr_done:
  assumes "outcome (add_cidr_to_pl cfg fuel pl ips v w) = Inr v'"
  shows "entry_calls (events (add_cidr_to_pl cfg fuel pl ips v w))
           = map (\<lambda>p. (Some p, None)) (paginate (as_cidrs ips))"
    and "pl_entries (world_after (add_cidr_to_pl cfg fuel pl ips v w))
           = pl_entries w @ as_cidrs ips"
  using page_loop_done [of cfg fuel pl AddFailed "\<lambda>p. (Some p, None)" "paginate (as_cidrs ips)" v w v']
    assms
  by (simp_all add: add_cidr_to_pl_def add_pages_loop Let_def foldl_adds concat_paginate)

lemma remove_cidr_prefix:
  "\<exists>k. entry_calls (events (remove_cidr_from_pl cfg fuel pl ips v w))
         = map (\<lambda>p. (None, Some p)) (take k (paginate (as_cidrs ips)))"
  using page_loop_calls_prefix [of cfg fuel pl RemoveFailed "\<lambda>p. (None, Some p)"]
  by (simp add: remove_cidr_from_pl_def remove_pages_loop Let_def)

lemma add_cidr_prefix:
  "\<exists>k. entry_calls (events (add_cidr_to_pl cfg fuel pl ips v w))
         = map (\<lambda>p. (Some p, None)) (take k (paginate (as_cidrs ips)))"
  using page_loop_calls_prefix [of cfg fuel pl AddFailed "\<lambda>p. (Some p, None)"]
  by (simp add: add_cidr_to_pl_def add_pages_loop Let_def)

lemma remove_cidr_keeps:
  assumes "e \<in> set (pl_entries w)" "snd e \<noteq> 32"
  shows "e \<in> set (pl_entries (world_after (remove_cidr_from_pl cfg fuel pl ips v w)))"
  unfolding remove_cidr_from_pl_def remove_pages_loop Let_def
  using assms by (intro page_loop_keeps) (auto simp: given_simps dest: page_mask)

lemma add_cidr_keeps:
  assumes "e \<in> set (pl_entries w)"
  shows "e \<in> set (pl_entries (world_after (add_cidr_to_pl cfg fuel pl ips v w)))"
  unfolding add_cidr_to_pl_def add_pages_loop Let_def
  using assms by (intro page_loop_keeps) (auto simp: given_simps)



section \<open>The combined update and the resize\<close>

lemma update_simps:
  "outcome (update_cidrs_in_pl cfg pl R A v w) =
     (if refused w \<or> v \<noteq> pl_version w then Inl SysExit else Inr (Some (pl_version w + 1)))"
  "pl_entries (world_after (update_cidrs_in_pl cfg pl R A v w)) =
     (if refused w \<or> v \<noteq> pl_version w then pl_entries w
      else filter (\<lambda>e. e \<notin> set (as_cidrs R)) (pl_entries w) @ as_cidrs A)"
  "sg_addresses (world_after (update_cidrs_in_pl cfg pl R A v w)) = sg_addresses w"
  "entry_calls (events (update_cidrs_in_pl cfg pl R A v w)) = [(Some (as_cidrs A), Some (as_cidrs R))]"
  by (simp_all add: update_cidrs_in_pl_def Let_def andthen_simps total_simps done_with_simps
      log_handler_simps modify_simps given_simps entry_calls_simps entry_call_simps)


lemma max_entries_simps:
  "pl_entries (fst (snd (modify_managed_prefix_list_max_entries pl n w))) = pl_entries w"
  "sg_addresses (fst (snd (modify_managed_prefix_list_max_entries pl n w))) = sg_addresses w"
  "entry_calls (snd (snd (modify_managed_prefix_list_max_entries pl n w))) = []"
  by (simp_all add: modify_managed_prefix_list_max_entries_def Let_def entry_calls_simps
      entry_call_simps)

lemma pl_resize_frame:
  "pl_entries (world_after (pl_resize cfg pl q n w)) = pl_entries w"
  "sg_addresses (world_after (pl_resize cfg pl q n w)) = sg_addresses w"
  "entry_calls (events (pl_resize cfg pl q n w)) = []"
  by (simp_all add: pl_resize_def Let_def andthen_simps total_simps done_with_simps raise_simps
      log_handler_simps max_entries_simps entry_calls_simps entry_call_simps
      split: sum.splits option.splits)

section \<open>The two stages of the paginated update\<close>

lemma paginate_Nil: "paginate [] = []"
  by (simp add: paginate_def)

lemma remove_stage_prefix:
  "\<exists>i. entry_calls (events (remove_stage cfg fuel pl info R w))
         = map (\<lambda>p. (None, Some p)) (take i (paginate (as_cidrs R)))"
proof (cases "card R > 0")
  case True
  obtain k where k: "entry_calls (events (remove_cidr_from_pl cfg fuel pl R (Version info)
        (world_after (wait_until_ready cfg fuel pl w))))
      = map (\<lambda>p. (None, Some p)) (take k (paginate (as_cidrs R)))"
    using remove_cidr_prefix by blast
  have "entry_calls (events (remove_stage cfg fuel pl info R w))
      = map (\<lambda>p. (None, Some p)) (take k (paginate (as_cidrs R)))
    \<or> entry_calls (events (remove_stage cfg fuel pl info R w))
      = map (\<lambda>p. (None, Some p)) (take 0 (paginate (as_cidrs R)))"
    using True k
    by (simp add: remove_stage_def andthen_simps done_with_simps entry_calls_simps
        wait_until_ready_frame split: sum.splits)
  then show ?thesis by blast
next
  case False
  then have "entry_calls (events (remove_stage cfg fuel pl info R w))
      = map (\<lambda>p. (None, Some p)) (take 0 (paginate (as_cidrs R)))"
    by (simp add: remove_stage_def done_with_simps entry_calls_simps)
  then show ?thesis by blast
qed

lemma remove_stage_done:
  assumes "outcome (remove_stage cfg fuel pl info R w) = Inr u"
  shows "entry_calls (events (remove_stage cfg fuel pl info R w))
           = map (\<lambda>p. (None, Some p)) (paginate (as_cidrs R))"
    and "pl_entries (world_after (remove_stage cfg fuel pl info R w))
           = filter (\<lambda>e. e \<notin> set (as_cidrs R)) (pl_entries w)"
proof -
  show "entry_calls (events (remove_stage cfg fuel pl info R w))
           = map (\<lambda>p. (None, Some p)) (paginate (as_cidrs R))"
  proof (cases "card R > 0")
    case True
    with assms show ?thesis
      by (auto simp: remove_stage_def andthen_simps done_with_simps entry_calls_simps
          wait_until_ready_frame remove_cidr_done split: sum.splits)
  next
    case False
    then show ?thesis
      by (simp add: remove_stage_def done_with_simps entry_calls_simps as_cidrs_empty paginate_Nil)
  qed
  show "pl_entries (world_after (remove_stage cfg fuel pl info R w))
           = filter (\<lambda>e. e \<notin> set (as_cidrs R)) (pl_entries w)"
  proof (cases "card R > 0")
    case True
    with assms show ?thesis
      by (auto simp: remove_stage_def andthen_simps done_with_simps
          wait_until_ready_frame remove_cidr_done split: sum.splits)
  next
    case False
    then show ?thesis
      by (simp add: remove_stage_def done_with_simps as_cidrs_empty)
  qed
qed

lemma remove_stage_keeps:
  assumes "e \<in> set (pl_entries w)" "snd e \<noteq> 32"
  shows "e \<in> set (pl_entries (world_after (remove_stage cfg fuel pl info R w)))"
  using assms
  by (auto simp: remove_stage_def andthen_simps done_with_simps wait_until_ready_frame
      intro: remove_cidr_keeps split: sum.splits)



lemma add_stage_prefix:
  "\<exists>j. entry_calls (events (add_stage cfg fuel pl A w))
         = map (\<lambda>p. (Some p, None)) (take j (paginate (as_cidrs A)))"
proof (cases "card A > 0")
  case True
  let ?w1 = "world_after (wait_until_ready cfg fuel pl w)"
  obtain k where k: "entry_calls (events (add_cidr_to_pl cfg fuel pl A (Version (fst (pl_info pl ?w1)))
        (advance ?w1)))
      = map (\<lambda>p. (Some p, None)) (take k (paginate (as_cidrs A)))"
    using add_cidr_prefix by blast
  have "entry_calls (events (add_stage cfg fuel pl A w))
      = map (\<lambda>p. (Some p, None)) (take k (paginate (as_cidrs A)))
    \<or> entry_calls (events (add_stage cfg fuel pl A w))
      = map (\<lambda>p. (Some p, None)) (take 0 (paginate (as_cidrs A)))"
    using True k
    by (simp add: add_stage_def andthen_simps total_simps done_with_simps entry_calls_simps
        entry_call_simps wait_until_ready_frame reader_simps split: sum.splits)
  then show ?thesis by blast
next
  case False
  then have "entry_calls (events (add_stage cfg fuel pl A w))
      = map (\<lambda>p. (Some p, None)) (take 0 (paginate (as_cidrs A)))"
    by (simp add: add_stage_def done_with_simps entry_calls_simps)
  then show ?thesis by blast
qed


lemma add_stage_keeps:
  assumes "e \<in> set (pl_entries w)"
  shows "e \<in> set (pl_entries (world_after (add_stage cfg fuel pl A w)))"
  using assms
  by (auto simp: add_stage_def andthen_simps total_simps done_with_simps wait_until_ready_frame
      reader_simps advance_simps intro: add_cidr_keeps split: sum.splits)



section \<open>The resize, or the update of the entries\<close>

lemma apply_changes_resize:
  "MaxEnt info < n \<Longrightarrow>
     apply_changes cfg fuel pl info q n A R
       = andthen (pl_resize cfg pl q n) (\<lambda>_. wait_until_ready cfg fuel pl)"
  by (simp add: apply_changes_def)

lemma apply_changes_combined:
  "\<not> MaxEnt info < n \<Longrightarrow> 0 < card A \<or> 0 < card R \<Longrightarrow> card A < 100 \<Longrightarrow> card R < 100 \<Longrightarrow>
     apply_changes cfg fuel pl info q n A R
       = andthen (wait_until_ready cfg fuel pl) (\<lambda>_.
         andthen (update_cidrs_in_pl cfg pl R A (Version info)) (\<lambda>_. done_with ()))"
  by (simp add: apply_changes_def)

lemma apply_changes_paged:
  "\<not> MaxEnt info < n \<Longrightarrow> 100 < card A \<or> 100 < card R \<Longrightarrow>
     apply_changes cfg fuel pl info q n A R
       = andthen (remove_stage cfg fuel pl info R) (\<lambda>_. add_stage cfg fuel pl A)"
  by (auto simp: apply_changes_def)

lemma apply_changes_nothing:
  "\<not> MaxEnt info < n \<Longrightarrow> \<not> ((0 < card A \<or> 0 < card R) \<and> card A < 100 \<and> card R < 100)
     \<Longrightarrow> \<not> (100 < card A \<or> 100 < card R) \<Longrightarrow>
     apply_changes cfg fuel pl info q n A R = done_with ()"
  by (auto simp: apply_changes_def)

lemma apply_changes_branches:
  obtains (resize) "MaxEnt info < n"
  | (combined) "\<not> MaxEnt info < n" "0 < card A \<or> 0 < card R" "card A < 100" "card R < 100"
  | (paged) "\<not> MaxEnt info < n" "100 < card A \<or> 100 < card R"
  | (untouched) "\<not> MaxEnt info < n" "\<not> ((0 < card A \<or> 0 < card R) \<and> card A < 100 \<and> card R < 100)"
      "\<not> (100 < card A \<or> 100 < card R)"
proof (cases "MaxEnt info < n")
  case True
  then show ?thesis by (rule resize)
next
  case large: False
  show ?thesis
  proof (cases "100 < card A \<or> 100 < card R")
    case True
    with large show ?thesis by (rule paged)
  next
    case few: False
    show ?thesis
    proof (cases "(0 < card A \<or> 0 < card R) \<and> card A < 100 \<and> card R < 100")
      case True
      show ?thesis
      proof (rule combined)
        show "\<not> MaxEnt info < n" by (rule large)
        show "0 < card A \<or> 0 < card R" using True by simp
        show "card A < 100" using True by simp
        show "card R < 100" using True by simp
      qed
    next
      case none: False
      show ?thesis
      proof (rule untouched)
        show "\<not> MaxEnt info < n" by (rule large)
        show "\<not> ((0 < card A \<or> 0 < card R) \<and> card A < 100 \<and> card R < 100)" by (rule none)
        show "\<not> (100 < card A \<or> 100 < card R)" by (rule few)
      qed
    qed
  qed
qed

lemma paged_calls:
  assumes "\<not> MaxEnt info < n" "100 < card A \<or> 100 < card R"
  shows "\<exists>i j. entry_calls (events (apply_changes cfg fuel pl info q n A R w))
            = map (\<lambda>p. (None, Some p)) (take i (paginate (as_cidrs R)))
              @ map (\<lambda>p. (Some p, None)) (take j (paginate (as_cidrs A)))
          \<and> (j = 0 \<or> i = length (paginate (as_cidrs R)))"
proof (cases "outcome (remove_stage cfg fuel pl info R w)")
  case (Inl e)
  obtain i where "entry_calls (events (remove_stage cfg fuel pl info R w))
      = map (\<lambda>p. (None, Some p)) (take i (paginate (as_cidrs R)))"
    using remove_stage_prefix by blast
  then have "entry_calls (events (apply_changes cfg fuel pl info q n A R w))
      = map (\<lambda>p. (None, Some p)) (take i (paginate (as_cidrs R)))
        @ map (\<lambda>p. (Some p, None)) (take 0 (paginate (as_cidrs A)))"
    using Inl by (simp add: apply_changes_paged [OF assms] andthen_simps)
  then show ?thesis by blast
next
  case (Inr u)
  let ?w1 = "world_after (remove_stage cfg fuel pl info R w)"
  obtain j where "entry_calls (events (add_stage cfg fuel pl A ?w1))
      = map (\<lambda>p. (Some p, None)) (take j (paginate (as_cidrs A)))"
    using add_stage_prefix by blast
  then have "entry_calls (events (apply_changes cfg fuel pl info q n A R w))
      = map (\<lambda>p. (None, Some p)) (take (length (paginate (as_cidrs R))) (paginate (as_cidrs R)))
        @ map (\<lambda>p. (Some p, None)) (take j (paginate (as_cidrs A)))"
    using Inr remove_stage_done(1) [OF Inr]
    by (simp add: apply_changes_paged [OF assms] andthen_simps entry_calls_simps)
  then show ?thesis by blast
qed

text \<open>Every call with entries is the combined one, or passes one page of one of the two lists.\<close>

lemma apply_changes_calls:
  assumes "c \<in> set (entry_calls (events (apply_changes cfg fuel pl info q n A R w)))"
  shows "(c = (Some (as_cidrs A), Some (as_cidrs R)) \<and> card A < 100 \<and> card R < 100)
         \<or> (\<exists>p \<in> set (paginate (as_cidrs R)). c = (None, Some p))
         \<or> (\<exists>p \<in> set (paginate (as_cidrs A)). c = (Some p, None))"
proof -
  consider (resize) "MaxEnt info < n"
    | (combined) "\<not> MaxEnt info < n" "0 < card A \<or> 0 < card R" "card A < 100" "card R < 100"
    | (paged) "\<not> MaxEnt info < n" "100 < card A \<or> 100 < card R"
    | (untouched) "\<not> MaxEnt info < n"
        "\<not> ((0 < card A \<or> 0 < card R) \<and> card A < 100 \<and> card R < 100)"
        "\<not> (100 < card A \<or> 100 < card R)"
    by (rule apply_changes_branches)
  then show ?thesis
  proof cases
    case resize
    with assms show ?thesis
      by (simp add: apply_changes_resize andthen_simps entry_calls_simps pl_resize_frame
          wait_until_ready_frame split: sum.splits)
  next
    case combined
    with assms show ?thesis
      by (simp add: apply_changes_combined andthen_simps entry_calls_simps done_with_simps
          update_simps wait_until_ready_frame split: sum.splits)
  next
    case paged
    from paged_calls [OF paged] obtain i j where
      "entry_calls (events (apply_changes cfg fuel pl info q n A R w))
         = map (\<lambda>p. (None, Some p)) (take i (paginate (as_cidrs R)))
           @ map (\<lambda>p. (Some p, None)) (take j (paginate (as_cidrs A)))"
      by blast
    with assms show ?thesis
      by (auto dest: in_set_takeD)
  next
    case untouched
    with assms show ?thesis
      by (simp add: apply_changes_nothing done_with_simps entry_calls_simps)
  qed
qed

lemma removes_first_pages:
  "removes_first (map (\<lambda>p. (None, Some p)) xs @ map (\<lambda>p. (Some p, None)) ys)"
proof (induction xs)
  case Nil
  show ?case by (induction ys) (simp_all add: list_all_iff)
next
  case (Cons x xs)
  then show ?case by simp
qed

lemma apply_changes_removes_first:
  "removes_first (entry_calls (events (apply_changes cfg fuel pl info q n A R w)))"
proof -
  consider (resize) "MaxEnt info < n"
    | (combined) "\<not> MaxEnt info < n" "0 < card A \<or> 0 < card R" "card A < 100" "card R < 100"
    | (paged) "\<not> MaxEnt info < n" "100 < card A \<or> 100 < card R"
    | (untouched) "\<not> MaxEnt info < n"
        "\<not> ((0 < card A \<or> 0 < card R) \<and> card A < 100 \<and> card R < 100)"
        "\<not> (100 < card A \<or> 100 < card R)"
    by (rule apply_changes_branches)
  then show ?thesis
  proof cases
    case resize
    then show ?thesis
      by (simp add: apply_changes_resize andthen_simps entry_calls_simps pl_resize_frame
          wait_until_ready_frame split: sum.splits)
  next
    case combined
    then show ?thesis
      by (simp add: apply_changes_combined andthen_simps entry_calls_simps done_with_simps
          update_simps wait_until_ready_frame split: sum.splits)
  next
    case paged
    from paged_calls [OF paged] obtain i j where
      "entry_calls (events (apply_changes cfg fuel pl info q n A R w))
         = map (\<lambda>p. (None, Some p)) (take i (paginate (as_cidrs R)))
           @ map (\<lambda>p. (Some p, None)) (take j (paginate (as_cidrs A)))"
      by blast
    then show ?thesis
      by (simp only: removes_first_pages)
  next
    case untouched
    then show ?thesis
      by (simp add: apply_changes_nothing done_with_simps entry_calls_simps)
  qed
qed


lemma apply_changes_keeps:
  assumes "e \<in> set (pl_entries w)" "snd e \<noteq> 32"
  shows "e \<in> set (pl_entries (world_after (apply_changes cfg fuel pl info q n A R w)))"
proof -
  consider (resize) "MaxEnt info < n"
    | (combined) "\<not> MaxEnt info < n" "0 < card A \<or> 0 < card R" "card A < 100" "card R < 100"
    | (paged) "\<not> MaxEnt info < n" "100 < card A \<or> 100 < card R"
    | (untouched) "\<not> MaxEnt info < n"
        "\<not> ((0 < card A \<or> 0 < card R) \<and> card A < 100 \<and> card R < 100)"
        "\<not> (100 < card A \<or> 100 < card R)"
    by (rule apply_changes_branches)
  then show ?thesis
  proof cases
    case resize
    with assms show ?thesis
      by (simp add: apply_changes_resize andthen_simps pl_resize_frame wait_until_ready_frame
          split: sum.splits)
  next
    case combined
    with assms show ?thesis
      by (auto simp: apply_changes_combined andthen_simps done_with_simps update_simps
          wait_until_ready_frame dest: as_cidrs_mask split: sum.splits)
  next
    case paged
    with assms show ?thesis
      by (auto simp: apply_changes_paged andthen_simps intro: remove_stage_keeps add_stage_keeps
          split: sum.splits)
  next
    case untouched
    with assms show ?thesis
      by (simp add: apply_changes_nothing done_with_simps)
  qed
qed



section \<open>The whole pass\<close>

text \<open>
  What \<^verbatim>\<open>lambda_handler\<close> computes from its reads: the addresses of the prefix list, the
  new length, and the stage after the quota check.
\<close>

lemma reconcile_run:
  fixes cfg fuel sg pl w
  defines "pliplist \<equiv> map fst (filter (\<lambda>entry. snd entry = 32) (pl_entries w))"
  defines "n \<equiv> newpllength (sg_addresses w) pliplist"
  defines "rest \<equiv> apply_changes cfg fuel pl \<lparr>MaxEnt = pl_maxentries w, Version = pl_version w\<rparr>
                     (quota_value w) n (itemstoadd (sg_addresses w) pliplist)
                     (itemstoremove (sg_addresses w) pliplist) (advance w)"
  shows "outcome (reconcile cfg fuel sg pl w) =
           (if quota_value w - of_int n < 1 then Inl SysExit
            else case outcome rest of
                   Inl e \<Rightarrow> Inl e
                 | Inr u \<Rightarrow> Inr (''sync completed successfully for '' @ sg @ '' to '' @ pl))"
    and "world_after (reconcile cfg fuel sg pl w) =
           (if quota_value w - of_int n < 1 then advance w else world_after rest)"
    and "events (reconcile cfg fuel sg pl w) =
           [DescribeNetworkInterfaces sg, GetManagedPrefixListEntries pl,
            DescribeManagedPrefixLists pl (fst (describe_managed_prefix_lists pl w)), GetServiceQuota]
           @ events (check_quota cfg (quota_value w) n (advance w))
           @ (if quota_value w - of_int n < 1 then [] else events rest)"
  using quota_not_zero [of "quota_value w" "sg_addresses w" pliplist]
  by (simp_all add: reconcile_def andthen_simps total_simps done_with_simps reader_simps
      check_quota_simps advance_simps pliplist_def n_def rest_def split: sum.splits)

lemma entry_calls_check_quota: "entry_calls (events (check_quota cfg q n w)) = []"
  by (simp add: check_quota_simps entry_calls_simps entry_call_simps)

lemma lambda_handler_missing:
  assumes "event ''sg'' = None \<or> event ''pl'' = None \<or> event ''region'' = None"
  shows "outcome (lambda_handler cfg fuel event w) = Inl SysExit"
    and "world_after (lambda_handler cfg fuel event w) = w"
    and "entry_calls (events (lambda_handler cfg fuel event w)) = []"
  using assms
  by (auto simp: lambda_handler_def event_key_def andthen_simps done_with_simps log_handler_simps
      entry_calls_simps entry_call_simps split: option.splits sum.splits)

lemma lambda_handler_keys:
  obtains (missing) "event ''sg'' = None \<or> event ''pl'' = None \<or> event ''region'' = None"
  | (present) sg pl region where "event ''sg'' = Some sg" "event ''pl'' = Some pl"
      "event ''region'' = Some region"
  by (cases "event ''sg''"; cases "event ''pl''"; cases "event ''region''") auto

text \<open>The calls with entries of a pass are those of its last stage, if it gets that far.\<close>

lemma lambda_handler_calls:
  fixes cfg fuel event w
  defines "pliplist \<equiv> map fst (filter (\<lambda>entry. snd entry = 32) (pl_entries w))"
  defines "n \<equiv> newpllength (sg_addresses w) pliplist"
  shows "entry_calls (events (lambda_handler cfg fuel event w)) = []
         \<or> (\<exists>pl. entry_calls (events (lambda_handler cfg fuel event w)) =
               entry_calls (events (apply_changes cfg fuel pl
                  \<lparr>MaxEnt = pl_maxentries w, Version = pl_version w\<rparr> (quota_value w) n
                  (itemstoadd (sg_addresses w) pliplist) (itemstoremove (sg_addresses w) pliplist)
                  (advance w))))"
proof (cases rule: lambda_handler_keys [of event])
  case missing
  then show ?thesis by (simp add: lambda_handler_missing)
next
  case (present sg pl region)
  show ?thesis
    unfolding lambda_handler_reconcile [OF present] pliplist_def n_def
    by (auto simp: reconcile_run entry_calls_simps entry_call_simps entry_calls_check_quota)
qed

lemma lambda_handler_world:
  fixes cfg fuel event w
  defines "pliplist \<equiv> map fst (filter (\<lambda>entry. snd entry = 32) (pl_entries w))"
  defines "n \<equiv> newpllength (sg_addresses w) pliplist"
  shows "pl_entries (world_after (lambda_handler cfg fuel event w)) = pl_entries w
         \<or> (\<exists>pl. world_after (lambda_handler cfg fuel event w) =
               world_after (apply_changes cfg fuel pl
                  \<lparr>MaxEnt = pl_maxentries w, Version = pl_version w\<rparr> (quota_value w) n
                  (itemstoadd (sg_addresses w) pliplist) (itemstoremove (sg_addresses w) pliplist)
                  (advance w)))"
proof (cases rule: lambda_handler_keys [of event])
  case missing
  then show ?thesis by (simp add: lambda_handler_missing)
next
  case (present sg pl region)
  show ?thesis
    unfolding lambda_handler_reconcile [OF present] pliplist_def n_def
    by (auto simp: reconcile_run advance_simps)
qed

section \<open>The cap on the entries of a call\<close>

lemma pages_of_150:
  assumes "length xs = 150"
  shows "map length (paginate xs) = [99, 51]"
proof -
  have a: "xs \<noteq> []" "drop 99 xs \<noteq> []" "drop 99 (drop 99 xs) = []"
    using assms by auto
  have "paginate xs = take 99 xs # paginate (drop 99 xs)"
    using a(1) paginate_rec [of xs] by simp
  moreover have "paginate (drop 99 xs) = take 99 (drop 99 xs) # paginate (drop 99 (drop 99 xs))"
    using a(2) paginate_rec [of "drop 99 xs"] by simp
  moreover have "paginate (drop 99 (drop 99 xs)) = []"
    by (simp only: a(3) paginate_Nil)
  ultimately have "paginate xs = [take 99 xs, take 99 (drop 99 xs)]"
    by simp
  then show ?thesis using assms by simp
qed



section \<open>Entries that are not single addresses\<close>

text \<open>
  C10. \<^verbatim>\<open>get_ips_in_pl\<close> returns the addresses of the entries with mask 32 and of no
  others: the list it returns, and with it the new length, is the same when the other
  entries are taken out of the prefix list. Every address to remove is the address of an
  entry with mask 32, every entry that a pass asks to remove has mask 32, and an entry with
  another mask is still in the prefix list after the pass.
\<close>

theorem only_host_entries:
  "set (fst (get_ips_in_pl pl w)) = {a. (a, 32) \<in> set (pl_entries w)}
   \<and> fst (get_ips_in_pl pl (w\<lparr>pl_entries := filter (\<lambda>entry. snd entry = 32) (pl_entries w)\<rparr>))
       = fst (get_ips_in_pl pl w)
   \<and> itemstoremove sgiplist (fst (get_ips_in_pl pl w)) \<subseteq> {a. (a, 32) \<in> set (pl_entries w)}
   \<and> list_all (\<lambda>c. list_all (\<lambda>entry. snd entry = 32) (given (snd c)))
       (entry_calls (events (lambda_handler cfg fuel event w)))
   \<and> (entry \<in> set (pl_entries w) \<and> snd entry \<noteq> 32
       \<longrightarrow> entry \<in> set (pl_entries (world_after (lambda_handler cfg fuel event w))))"
proof -
  have "set (fst (get_ips_in_pl pl w)) = {a. (a, 32) \<in> set (pl_entries w)}"
    by (force simp: reader_simps)
  moreover have "fst (get_ips_in_pl pl (w\<lparr>pl_entries := filter (\<lambda>entry. snd entry = 32) (pl_entries w)\<rparr>))
       = fst (get_ips_in_pl pl w)"
    by (simp add: reader_simps)
  moreover have "itemstoremove sgiplist (fst (get_ips_in_pl pl w)) \<subseteq> {a. (a, 32) \<in> set (pl_entries w)}"
    by (force simp: itemstoremove_def reader_simps)
  moreover have "list_all (\<lambda>c. list_all (\<lambda>entry. snd entry = 32) (given (snd c)))
       (entry_calls (events (lambda_handler cfg fuel event w)))"
  proof -
    have mask: "list_all (\<lambda>c. list_all (\<lambda>entry. snd entry = 32) (given (snd c)))
       (entry_calls (events (apply_changes cfg' fuel' pl' info' q' n' A' R' w')))"
      for cfg' fuel' pl' info' q' n' A' R' w'
      unfolding list_all_iff
    proof (intro ballI)
      fix c entry
      assume c: "c \<in> set (entry_calls (events (apply_changes cfg' fuel' pl' info' q' n' A' R' w')))"
        and e: "entry \<in> set (given (snd c))"
      from apply_changes_calls [OF c] consider
          "c = (Some (as_cidrs A'), Some (as_cidrs R'))"
        | p where "p \<in> set (paginate (as_cidrs R'))" "c = (None, Some p)"
        | p where "c = (Some p, None)"
        by blast
      then show "snd entry = 32"
      proof cases
        case 1
        with e show ?thesis by (simp add: given_simps as_cidrs_mask)
      next
        case 2
        with e show ?thesis by (simp add: given_simps page_mask)
      next
        case 3
        with e show ?thesis by (simp add: given_simps)
      qed
    qed
    from lambda_handler_calls [of cfg fuel event w] show ?thesis
      by (auto simp: mask)
  qed
  moreover have "entry \<in> set (pl_entries (world_after (lambda_handler cfg fuel event w)))"
    if "entry \<in> set (pl_entries w)" "snd entry \<noteq> 32"
    using lambda_handler_world [of cfg fuel event w] that
      apply_changes_keeps [of entry "advance w"]
    by (auto simp: advance_simps)
  ultimately show ?thesis by blast
qed

theorem only_host_entries_witness:
  "fst (get_ips_in_pl ''pl-1'' (example_world\<lparr>pl_entries := (''10.0.1.0'', 24) # pl_entries example_world\<rparr>))
     = [''10.0.0.2'', ''10.0.0.3'', ''10.0.0.4'']
   \<and> (''10.0.1.0'', 24) \<in> set (pl_entries (world_after (lambda_handler example_config 5 example_event
         (example_world\<lparr>pl_entries := (''10.0.1.0'', 24) # pl_entries example_world\<rparr>))))"
proof -
  let ?w = "example_world\<lparr>pl_entries := (''10.0.1.0'', 24) # pl_entries example_world\<rparr>"
  have "fst (get_ips_in_pl ''pl-1'' ?w) = [''10.0.0.2'', ''10.0.0.3'', ''10.0.0.4'']"
    by (simp add: reader_simps example_world_def)
  moreover have "(''10.0.1.0'', 24) \<in> set (pl_entries ?w) \<and> snd (''10.0.1.0'', 24 :: nat) \<noteq> 32"
    by simp
  ultimately show ?thesis
    using only_host_entries [where w = ?w and entry = "(''10.0.1.0'', 24)" and cfg = example_config
        and fuel = 5 and event = example_event]
    by blast
qed

section \<open>The version a call passes\<close>




section \<open>Many addresses\<close>

declare digits.simps [simp del]

lemma number_snoc: "number (s @ [c]) = 10 * number s + (of_char c - 48)"
  by (simp add: number_def)

lemma number_digits: "number (digits n) = n"
proof (induction n rule: digits.induct)
  case (1 n)
  show ?case
  proof (cases "n < 10")
    case True
    then have "digits n = [char_of (48 + n)]"
      by (subst digits.simps) simp
    moreover have "(48 + n) mod 256 = 48 + n"
      using True by simp
    ultimately show ?thesis
      by (simp add: number_def)
  next
    case False
    then have d: "digits n = digits (n div 10) @ [char_of (48 + n mod 10)]"
      by (subst digits.simps) simp
    have "(48 + n mod 10) mod 256 = 48 + n mod 10"
      by (simp add: mod_less less_trans [OF add_strict_left_mono [OF pos_mod_bound]])
    then show ?thesis
      using 1 [OF False] by (simp add: d number_snoc)
  qed
qed

lemma address_inj: "address a = address b \<Longrightarrow> a = b"
proof -
  assume "address a = address b"
  then have "digits a = digits b"
    by (simp add: address_def)
  then have "number (digits a) = number (digits b)"
    by simp
  then show ?thesis
    by (simp only: number_digits)
qed

lemma distinct_addresses: "distinct (map address [0 ..< k])"
  by (auto simp: distinct_map intro!: inj_onI dest: address_inj)

lemma card_addresses: "card (set (map address [0 ..< k])) = k"
  using distinct_card [OF distinct_addresses [of k]] by simp

section \<open>Removals come first\<close>

lemma large_diff_calls:
  assumes "100 < card A \<or> 100 < card R"
  shows "\<exists>i j. entry_calls (events (apply_changes cfg fuel pl info q n A R w))
            = map (\<lambda>p. (None, Some p)) (take i (paginate (as_cidrs R)))
              @ map (\<lambda>p. (Some p, None)) (take j (paginate (as_cidrs A)))
          \<and> (j = 0 \<or> i = length (paginate (as_cidrs R)))"
proof (cases "MaxEnt info < n")
  case True
  then have "entry_calls (events (apply_changes cfg fuel pl info q n A R w))
      = map (\<lambda>p. (None, Some p)) (take 0 (paginate (as_cidrs R)))
        @ map (\<lambda>p. (Some p, None)) (take 0 (paginate (as_cidrs A)))"
    by (simp add: apply_changes_resize andthen_simps entry_calls_simps pl_resize_frame
        wait_until_ready_frame split: sum.splits)
  then show ?thesis by blast
next
  case False
  then show ?thesis using assms by (rule paged_calls)
qed

text \<open>
  C8. Among the modify calls of a pass, none that passes entries to remove comes after one
  that passes entries to add. When one of the two sets has more than 100 addresses, the calls
  are pages of the removals followed by pages of the additions, each page in its own call,
  and a page of additions is sent only after every page of the removals has been sent.
\<close>

theorem removes_before_adds:
  fixes cfg fuel event w
  defines "pliplist \<equiv> map fst (filter (\<lambda>entry. snd entry = 32) (pl_entries w))"
  defines "removals \<equiv> paginate (as_cidrs (itemstoremove (sg_addresses w) pliplist))"
  defines "additions \<equiv> paginate (as_cidrs (itemstoadd (sg_addresses w) pliplist))"
  shows "removes_first (entry_calls (events (lambda_handler cfg fuel event w)))
         \<and> (100 < card (itemstoadd (sg_addresses w) pliplist)
              \<or> 100 < card (itemstoremove (sg_addresses w) pliplist)
            \<longrightarrow> (\<exists>i j. entry_calls (events (lambda_handler cfg fuel event w))
                         = map (\<lambda>p. (None, Some p)) (take i removals)
                           @ map (\<lambda>p. (Some p, None)) (take j additions)
                       \<and> (j = 0 \<or> i = length removals)))"
proof -
  let ?n = "newpllength (sg_addresses w) pliplist"
  let ?A = "itemstoadd (sg_addresses w) pliplist"
  let ?R = "itemstoremove (sg_addresses w) pliplist"
  let ?calls = "entry_calls (events (lambda_handler cfg fuel event w))"
  from lambda_handler_calls [of cfg fuel event w] consider
      (none) "?calls = []"
    | (some) pl where "?calls = entry_calls (events (apply_changes cfg fuel pl
          \<lparr>MaxEnt = pl_maxentries w, Version = pl_version w\<rparr> (quota_value w) ?n ?A ?R (advance w)))"
    unfolding pliplist_def by blast
  then show ?thesis
  proof cases
    case none
    then have "?calls = map (\<lambda>p. (None, Some p)) (take 0 removals)
        @ map (\<lambda>p. (Some p, None)) (take 0 additions)"
      by simp
    then have "\<exists>i j. ?calls = map (\<lambda>p. (None, Some p)) (take i removals)
        @ map (\<lambda>p. (Some p, None)) (take j additions) \<and> (j = 0 \<or> i = length removals)"
      by blast
    with none show ?thesis by simp
  next
    case some
    have "removes_first ?calls"
      unfolding some by (rule apply_changes_removes_first)
    moreover have "\<exists>i j. ?calls = map (\<lambda>p. (None, Some p)) (take i removals)
        @ map (\<lambda>p. (Some p, None)) (take j additions) \<and> (j = 0 \<or> i = length removals)"
      if "100 < card ?A \<or> 100 < card ?R"
      unfolding some removals_def additions_def using that by (rule large_diff_calls)
    ultimately show ?thesis by blast
  qed
qed

lemma crowded_reads:
  "map fst (filter (\<lambda>entry. snd entry = 32) (pl_entries (crowded_world k))) = map address [0 ..< k]"
  "sg_addresses (crowded_world k) = [''10.0.1.1'']"
  by (simp_all add: crowded_world_def filter_map comp_def)

lemma crowded_removals:
  "itemstoremove [''10.0.1.1''] (map address [0 ..< k]) = set (map address [0 ..< k])"
  by (auto simp: itemstoremove_def address_def)

theorem removes_before_adds_witness:
  "100 < card (itemstoremove (sg_addresses (crowded_world 150))
                 (map fst (filter (\<lambda>entry. snd entry = 32) (pl_entries (crowded_world 150)))))
   \<and> (\<exists>i j. entry_calls (events (lambda_handler example_config 5 example_event (crowded_world 150)))
         = map (\<lambda>p. (None, Some p))
             (take i (paginate (as_cidrs (itemstoremove (sg_addresses (crowded_world 150))
                (map fst (filter (\<lambda>entry. snd entry = 32) (pl_entries (crowded_world 150))))))))
           @ map (\<lambda>p. (Some p, None))
             (take j (paginate (as_cidrs (itemstoadd (sg_addresses (crowded_world 150))
                (map fst (filter (\<lambda>entry. snd entry = 32) (pl_entries (crowded_world 150))))))))
       \<and> (j = 0 \<or> i = length (paginate (as_cidrs (itemstoremove (sg_addresses (crowded_world 150))
                (map fst (filter (\<lambda>entry. snd entry = 32) (pl_entries (crowded_world 150)))))))))"
proof -
  have many: "100 < card (itemstoremove (sg_addresses (crowded_world 150))
                 (map fst (filter (\<lambda>entry. snd entry = 32) (pl_entries (crowded_world 150)))))"
    unfolding crowded_reads crowded_removals card_addresses by simp
  with removes_before_adds [of example_config 5 example_event "crowded_world 150"]
  show ?thesis by blast
qed

section \<open>A pass in a world at rest\<close>

lemma calm_advance: "calm w \<Longrightarrow> advance w = w"
  by (simp add: calm_def advance_def)

lemma calm_pl_ready:
  assumes "calm w"
  shows "outcome (pl_ready cfg pl w) = Inr True" "world_after (pl_ready cfg pl w) = w"
  using assms by (auto simp: outcome_pl_ready world_after_pl_ready calm_advance calm_def)

lemma calm_wait:
  assumes "calm w"
  shows "outcome (wait_until_ready cfg fuel pl w) = Inr ()"
    "world_after (wait_until_ready cfg fuel pl w) = w"
  using assms
  by (cases fuel; simp add: wait_until_ready_def andthen_simps calm_pl_ready done_with_simps)+

lemma calm_modify_page:
  assumes "calm w"
  shows "outcome (modify_page cfg fuel pl failed adds removes w) = Inr (pl_version w + 1)"
    "calm (world_after (modify_page cfg fuel pl failed adds removes w))"
  using assms
  by (simp_all add: modify_page_def andthen_simps total_simps done_with_simps reader_simps
      calm_wait calm_advance modify_managed_prefix_list_def refused_def Let_def)
    (simp_all add: calm_def)

lemma calm_page_loop:
  "calm w \<Longrightarrow> (\<exists>v'. outcome (page_loop cfg fuel pl failed wrap pages v w) = Inr v')
     \<and> calm (world_after (page_loop cfg fuel pl failed wrap pages v w))"
proof (induction pages arbitrary: v w)
  case Nil
  then show ?case by (simp add: done_with_simps)
next
  case (Cons page pages)
  from calm_modify_page [OF Cons.prems, of cfg fuel pl failed "fst (wrap page)" "snd (wrap page)"]
    Cons.IH [of "world_after (modify_page cfg fuel pl failed (fst (wrap page)) (snd (wrap page)) w)"]
  show ?case
    by (simp add: andthen_simps)
qed

lemma calm_add_stage:
  assumes "calm w"
  shows "outcome (add_stage cfg fuel pl A w) = Inr ()"
    and "entry_calls (events (add_stage cfg fuel pl A w))
           = map (\<lambda>p. (Some p, None)) (paginate (as_cidrs A))"
proof -
  obtain v' where ok: "outcome (add_cidr_to_pl cfg fuel pl A (pl_version w) w) = Inr v'"
    using calm_page_loop [OF assms, of cfg fuel pl AddFailed "\<lambda>p. (Some p, None)"
        "paginate (as_cidrs A)" "pl_version w"]
    by (auto simp: add_cidr_to_pl_def add_pages_loop Let_def)
  show "outcome (add_stage cfg fuel pl A w) = Inr ()"
    using ok
    by (simp add: add_stage_def andthen_simps total_simps done_with_simps reader_simps
        calm_wait [OF assms] calm_advance [OF assms])
  show "entry_calls (events (add_stage cfg fuel pl A w))
           = map (\<lambda>p. (Some p, None)) (paginate (as_cidrs A))"
    using ok add_cidr_done(1) [OF ok]
    by (simp add: add_stage_def andthen_simps total_simps done_with_simps reader_simps
        calm_wait [OF assms] calm_advance [OF assms] entry_calls_simps entry_call_simps
        wait_until_ready_frame as_cidrs_empty paginate_Nil)
qed

section \<open>A difference of exactly 100 addresses\<close>

lemma empty_list_reads:
  "map fst (filter (\<lambda>entry. snd entry = 32) (pl_entries (empty_list_world k))) = []"
  "sg_addresses (empty_list_world k) = map address [0 ..< k]"
  "pl_maxentries (empty_list_world k) = 1000"
  "pl_version (empty_list_world k) = 1"
  "quota_value (empty_list_world k) = 1000"
  "advance (empty_list_world k) = empty_list_world k"
  "fst (describe_managed_prefix_lists pl (empty_list_world k))
     = \<lparr>MaxEntries = 1000, PlVersion = 1, State = ''create-complete'', StateMessage = []\<rparr>"
  by (simp_all add: empty_list_world_def advance_def describe_simps)

lemma empty_list_diff:
  "card (itemstoadd (map address [0 ..< k]) []) = k"
  "card (itemstoremove (map address [0 ..< k]) []) = 0"
  "newpllength (map address [0 ..< k]) [] = int k"
  using card_addresses [of k]
  by (simp_all add: newpllength_def itemstoadd_def itemstoremove_def)

text \<open>
  C2 at its boundary. The group has 100 addresses and the prefix list is empty, with room
  for 1000 entries under a quota of 1000: there are 100 addresses to add and none to remove.
  The pass makes its four reads, issues no modify call at all, leaves the prefix list empty,
  and reports success. With 150 addresses to add, in the same world, the pass succeeds and
  its modify calls are the pages of the additions, one call each, which are 99 and 51 long.
\<close>

theorem exactly_100_additions_are_dropped:
  "card (itemstoadd (sg_addresses (empty_list_world 100))
           (map fst (filter (\<lambda>entry. snd entry = 32) (pl_entries (empty_list_world 100))))) = 100
   \<and> outcome (lambda_handler example_config 5 example_event (empty_list_world 100))
       = Inr ''sync completed successfully for sg-1 to pl-1''
   \<and> events (lambda_handler example_config 5 example_event (empty_list_world 100))
       = [DescribeNetworkInterfaces ''sg-1'', GetManagedPrefixListEntries ''pl-1'',
          DescribeManagedPrefixLists ''pl-1''
            \<lparr>MaxEntries = 1000, PlVersion = 1, State = ''create-complete'', StateMessage = []\<rparr>,
          GetServiceQuota]
   \<and> pl_entries (world_after (lambda_handler example_config 5 example_event (empty_list_world 100))) = []
   \<and> outcome (lambda_handler example_config 5 example_event (empty_list_world 150))
       = Inr ''sync completed successfully for sg-1 to pl-1''
   \<and> entry_calls (events (lambda_handler example_config 5 example_event (empty_list_world 150)))
       = map (\<lambda>p. (Some p, None)) (paginate (as_cidrs (itemstoadd (sg_addresses (empty_list_world 150))
           (map fst (filter (\<lambda>entry. snd entry = 32) (pl_entries (empty_list_world 150)))))))
   \<and> map length (paginate (as_cidrs (itemstoadd (sg_addresses (empty_list_world 150))
        (map fst (filter (\<lambda>entry. snd entry = 32) (pl_entries (empty_list_world 150))))))) = [99, 51]"
proof -
  let ?A = "itemstoadd (map address [0 ..< 100]) []"
  let ?R = "itemstoremove (map address [0 ..< 100]) []"
  have r: "sgrulemaxutilizationpercentage example_config = 9 / 10"
    by (simp add: sgrulemaxutilizationpercentage_def example_config_def)
  have rest: "apply_changes example_config 5 ''pl-1'' \<lparr>MaxEnt = 1000, Version = 1\<rparr> 1000 100 ?A ?R
      = done_with ()"
    by (rule apply_changes_nothing) (simp_all add: empty_list_diff)
  have run: "lambda_handler example_config 5 example_event (empty_list_world 100)
      = reconcile example_config 5 ''sg-1'' ''pl-1'' (empty_list_world 100)"
    by (rule lambda_handler_reconcile [OF example_event_keys])
  let ?A' = "itemstoadd (map address [0 ..< 150]) []"
  let ?R' = "itemstoremove (map address [0 ..< 150]) []"
  have run': "lambda_handler example_config 5 example_event (empty_list_world 150)
      = reconcile example_config 5 ''sg-1'' ''pl-1'' (empty_list_world 150)"
    by (rule lambda_handler_reconcile [OF example_event_keys])
  have at_rest: "calm (empty_list_world 150)"
    by (simp add: calm_def empty_list_world_def)
  have "apply_changes example_config 5 ''pl-1'' \<lparr>MaxEnt = 1000, Version = 1\<rparr> 1000 150 ?A' ?R'
      = andthen (remove_stage example_config 5 ''pl-1'' \<lparr>MaxEnt = 1000, Version = 1\<rparr> ?R')
          (\<lambda>_. add_stage example_config 5 ''pl-1'' ?A')"
    by (rule apply_changes_paged) (simp_all add: empty_list_diff)
  moreover have "remove_stage example_config 5 ''pl-1'' \<lparr>MaxEnt = 1000, Version = 1\<rparr> ?R' = done_with ()"
    by (simp add: remove_stage_def empty_list_diff)
  ultimately have rest':
    "outcome (apply_changes example_config 5 ''pl-1'' \<lparr>MaxEnt = 1000, Version = 1\<rparr> 1000 150 ?A' ?R'
        (empty_list_world 150)) = Inr ()"
    "entry_calls (events (apply_changes example_config 5 ''pl-1'' \<lparr>MaxEnt = 1000, Version = 1\<rparr>
        1000 150 ?A' ?R' (empty_list_world 150))) = map (\<lambda>p. (Some p, None)) (paginate (as_cidrs ?A'))"
    by (simp_all add: andthen_simps done_with_simps calm_add_stage [OF at_rest] entry_calls_simps)
  have pages: "map length (paginate (as_cidrs ?A')) = [99, 51]"
    by (rule pages_of_150) (simp add: length_as_cidrs empty_list_diff)
  have empty: "pl_entries (empty_list_world 100) = []"
    by (simp add: empty_list_world_def)
  have hundred: "card (itemstoadd (sg_addresses (empty_list_world 100))
           (map fst (filter (\<lambda>entry. snd entry = 32) (pl_entries (empty_list_world 100))))) = 100"
    and "outcome (lambda_handler example_config 5 example_event (empty_list_world 100))
       = Inr ''sync completed successfully for sg-1 to pl-1''"
    and "events (lambda_handler example_config 5 example_event (empty_list_world 100))
       = [DescribeNetworkInterfaces ''sg-1'', GetManagedPrefixListEntries ''pl-1'',
          DescribeManagedPrefixLists ''pl-1''
            \<lparr>MaxEntries = 1000, PlVersion = 1, State = ''create-complete'', StateMessage = []\<rparr>,
          GetServiceQuota]"
    and "pl_entries (world_after (lambda_handler example_config 5 example_event (empty_list_world 100))) = []"
    unfolding run
    by (simp_all add: reconcile_run empty_list_reads empty_list_diff rest done_with_simps
        check_quota_simps r empty)
  moreover have "outcome (lambda_handler example_config 5 example_event (empty_list_world 150))
       = Inr ''sync completed successfully for sg-1 to pl-1''"
    and "entry_calls (events (lambda_handler example_config 5 example_event (empty_list_world 150)))
       = map (\<lambda>p. (Some p, None)) (paginate (as_cidrs (itemstoadd (sg_addresses (empty_list_world 150))
           (map fst (filter (\<lambda>entry. snd entry = 32) (pl_entries (empty_list_world 150)))))))"
    unfolding run'
    by (simp_all add: reconcile_run empty_list_reads empty_list_diff rest' entry_calls_simps
        entry_call_simps entry_calls_check_quota)
  moreover have "map length (paginate (as_cidrs (itemstoadd (sg_addresses (empty_list_world 150))
        (map fst (filter (\<lambda>entry. snd entry = 32) (pl_entries (empty_list_world 150))))))) = [99, 51]"
    by (simp add: empty_list_reads pages)
  ultimately show ?thesis
    by blast
qed

section \<open>After a successful pass\<close>








end
